theory Spec2Isabelle
  imports Complex_Main "HOL-Library.AList" "HOL-Library.Multiset" "HOL-Library.Word"
begin

section \<open>Library functions the exporter calls\<close>

subsection \<open>Package strings\<close>

text \<open>
  Go strings are byte sequences; \<open>strings.HasPrefix\<close>, \<open>strings.HasSuffix\<close> and
  \<open>strings.TrimPrefix\<close> compare bytes.
\<close>

definition HasPrefix :: "string \<Rightarrow> string \<Rightarrow> bool" where
  "HasPrefix s p = (length p \<le> length s \<and> take (length p) s = p)"

definition HasSuffix :: "string \<Rightarrow> string \<Rightarrow> bool" where
  "HasSuffix s p = (length p \<le> length s \<and> drop (length s - length p) s = p)"

definition TrimPrefix :: "string \<Rightarrow> string \<Rightarrow> string" where
  "TrimPrefix s p = (if HasPrefix s p then drop (length p) s else s)"

subsection \<open>Bucket bounds\<close>

text \<open>
  The keys of a histogram's bucket map are \<open>float64\<close> values. They are modelled by the
  exact rationals extended by the two infinities and NaN. Rounding is left to the parser,
  which is a parameter of the histogram builders (\<open>strconv.ParseFloat(s, 32)\<close>: \<open>None\<close>
  stands for its error; it returns NaN without error on the string \<open>NaN\<close>).

  The order of the type is the order \<open>sort.Float64s\<close> sorts by, with NaN before every
  other value. It is not the comparison of map keys: there a NaN equals no key, itself
  included, see \<open>assign\<close> and \<open>lookup\<close> below.
\<close>

datatype float64 = NaN | NegInf | Finite rat | PosInf

instantiation float64 :: linorder
begin

fun less_eq_float64 :: "float64 \<Rightarrow> float64 \<Rightarrow> bool" where
  "less_eq_float64 NaN _ = True"
| "less_eq_float64 _ NaN = False"
| "less_eq_float64 NegInf _ = True"
| "less_eq_float64 _ NegInf = False"
| "less_eq_float64 _ PosInf = True"
| "less_eq_float64 PosInf _ = False"
| "less_eq_float64 (Finite a) (Finite b) = (a \<le> b)"

definition less_float64 :: "float64 \<Rightarrow> float64 \<Rightarrow> bool" where
  "less_float64 x y = (x \<le> y \<and> \<not> y \<le> (x::float64))"

instance
proof
  fix x y z :: float64
  show "(x < y) = (x \<le> y \<and> \<not> y \<le> x)"
    by (simp add: less_float64_def)
  show "x \<le> x"
    by (cases x) simp_all
  show "x \<le> y \<Longrightarrow> y \<le> z \<Longrightarrow> x \<le> z"
    by (cases x; cases y; cases z) simp_all
  show "x \<le> y \<Longrightarrow> y \<le> x \<Longrightarrow> x = y"
    by (cases x; cases y) simp_all
  show "x \<le> y \<or> y \<le> x"
    by (cases x; cases y) auto
qed

end

text \<open>The division \<open>b/1000\<close> that turns milliseconds into seconds.\<close>

fun div1000 :: "float64 \<Rightarrow> float64" where
  "div1000 (Finite r) = Finite (r / 1000)"
| "div1000 PosInf = PosInf"
| "div1000 NegInf = NegInf"
| "div1000 NaN = NaN"

section \<open>The resolver query-duration histogram\<close>

text \<open>
  \<open>StatV2\<close> and \<open>CounterV3\<close> are declared outside the two source files; the builders
  read their fields \<open>Name\<close> and \<open>Counter\<close>. \<open>Counter\<close> holds the value
  \<open>uint64(s.Counter)\<close> the builders compute with.
\<close>

type_synonym uint64 = "64 word"

record StatV2 =
  Name :: string
  Counter :: uint64

record CounterV3 =
  Name :: string
  Counter :: uint64

datatype error =
    GetError string
  | ReadError string
  | UnmarshalError string
  | StatusError string
  | ParseRTTError string

text \<open>
  A Go \<open>map[float64]uint64\<close> is a list of its entries. \<open>assign k v m\<close> is \<open>m[k] = v\<close>: it
  replaces the value of the key \<open>k\<close> or adds the entry, and always adds an entry when
  \<open>k\<close> is NaN, since a NaN key equals no key of the map. \<open>lookup m k\<close> is \<open>m[k]\<close>: the
  zero value for a key the map does not hold, and so for NaN. The keys the \<open>range\<close> loop
  of \<open>histogramV3\<close> sees are the first components of the entries, one per entry. The
  position of an entry in the list has no counterpart in Go.
\<close>

type_synonym buckets = "(float64 \<times> uint64) list"

definition assign :: "float64 \<Rightarrow> uint64 \<Rightarrow> buckets \<Rightarrow> buckets" where
  "assign k v m = (if k = NaN then m @ [(k, v)] else AList.update k v m)"

definition lookup :: "buckets \<Rightarrow> float64 \<Rightarrow> uint64" where
  "lookup m k = (if k = NaN then 0 else case map_of m k of None \<Rightarrow> 0 | Some v \<Rightarrow> v)"

definition qryRTT :: string where
  "qryRTT = ''QryRTT''"

text \<open>
  The bound \<open>b\<close> of one RTT counter, as both builders compute it: \<open>+Inf\<close> for a name
  that ends with \<open>+\<close>, else the parsed remainder of the name.
\<close>

definition rttBound :: "(string \<Rightarrow> float64 option) \<Rightarrow> string \<Rightarrow> error + float64" where
  "rttBound ParseFloat name =
     (if \<not> HasSuffix name ''+'' then
        (let rrt = TrimPrefix name qryRTT in
         case ParseFloat rrt of
           None \<Rightarrow> Inl (ParseRTTError rrt)
         | Some b \<Rightarrow> Inr b)
      else Inr PosInf)"

fun histogramV2_loop ::
  "(string \<Rightarrow> float64 option) \<Rightarrow> StatV2 list \<Rightarrow> buckets \<Rightarrow> uint64 \<Rightarrow> buckets \<times> uint64 \<times> error option"
where
  "histogramV2_loop ParseFloat [] buckets cnt = (buckets, cnt, None)"
| "histogramV2_loop ParseFloat (s # stats) buckets cnt =
     (if HasPrefix (StatV2.Name s) qryRTT then
        (case rttBound ParseFloat (StatV2.Name s) of
           Inl err \<Rightarrow> (buckets, 0, Some err)
         | Inr b \<Rightarrow>
             histogramV2_loop ParseFloat stats
               (assign (div1000 b) (cnt + StatV2.Counter s) buckets)
               (cnt + StatV2.Counter s))
      else histogramV2_loop ParseFloat stats buckets cnt)"

definition histogramV2 ::
  "(string \<Rightarrow> float64 option) \<Rightarrow> StatV2 list \<Rightarrow> buckets \<times> uint64 \<times> error option"
where
  "histogramV2 ParseFloat stats = histogramV2_loop ParseFloat stats [] 0"

text \<open>The first loop of \<open>histogramV3\<close>: the raw count of each bound, the last one winning.\<close>

fun histogramV3_collect ::
  "(string \<Rightarrow> float64 option) \<Rightarrow> CounterV3 list \<Rightarrow> buckets \<Rightarrow> buckets \<times> error option"
where
  "histogramV3_collect ParseFloat [] buckets = (buckets, None)"
| "histogramV3_collect ParseFloat (s # counters) buckets =
     (if HasPrefix (CounterV3.Name s) qryRTT then
        (case rttBound ParseFloat (CounterV3.Name s) of
           Inl err \<Rightarrow> (buckets, Some err)
         | Inr b \<Rightarrow>
             histogramV3_collect ParseFloat counters
               (assign (div1000 b) (CounterV3.Counter s) buckets))
      else histogramV3_collect ParseFloat counters buckets)"

text \<open>The last loop of \<open>histogramV3\<close>, over the sorted keys.\<close>

fun histogramV3_accumulate :: "float64 list \<Rightarrow> buckets \<Rightarrow> uint64 \<Rightarrow> buckets \<times> uint64" where
  "histogramV3_accumulate [] buckets cnt = (buckets, cnt)"
| "histogramV3_accumulate (k # keys) buckets cnt =
     histogramV3_accumulate keys
       (assign k (cnt + lookup buckets k) buckets)
       (cnt + lookup buckets k)"

definition histogramV3 ::
  "(string \<Rightarrow> float64 option) \<Rightarrow> CounterV3 list \<Rightarrow> buckets \<times> uint64 \<times> error option"
where
  "histogramV3 ParseFloat counters =
     (case histogramV3_collect ParseFloat counters [] of
        (buckets, Some err) \<Rightarrow> (buckets, 0, Some err)
      | (buckets, None) \<Rightarrow>
          (let keys = sort (map fst buckets);
               (buckets', count) = histogramV3_accumulate keys buckets 0
           in (buckets', count, None)))"

section \<open>The statistics trees\<close>

text \<open>
  The types \<open>BindRootV2\<close>, \<open>BindRootV3\<close> and \<open>Isc\<close> are declared outside the two source
  files. The records below have the fields the exporter reads, nested as it reads them.
\<close>

record ThreadModel =
  TasksRunning :: uint64
  WorkerThreads :: uint64

record TaskManager =
  ThreadModel :: ThreadModel

record QueriesIn =
  Rdtype :: "StatV2 list"

record Requests =
  Opcode :: "StatV2 list"

record ServerV2 =
  QueriesIn :: QueriesIn
  Requests :: Requests
  NsStats :: "StatV2 list"

record ViewV2 =
  Name :: string
  Cache :: "StatV2 list"
  Rdtype :: "StatV2 list"
  Resstat :: "StatV2 list"

record StatisticsV2 =
  Server :: ServerV2
  Views :: "ViewV2 list"
  Taskmgr :: TaskManager

record BindV2 =
  Statistics :: StatisticsV2

record BindRootV2 =
  Bind :: BindV2

record CountersV3 =
  Type :: string
  Counter :: "CounterV3 list"

record ServerV3 =
  Counters :: "CountersV3 list"

record ViewV3 =
  Name :: string
  Cache :: "CounterV3 list"
  Counters :: "CountersV3 list"

record BindRootV3 =
  Server :: ServerV3
  Views :: "ViewV3 list"
  Taskmgr :: TaskManager

text \<open>The zero value \<open>BindRootV3{}\<close>.\<close>

definition zeroBindRootV3 :: BindRootV3 where
  "zeroBindRootV3 =
     \<lparr>BindRootV3.Server = \<lparr>ServerV3.Counters = []\<rparr>,
      BindRootV3.Views = [],
      BindRootV3.Taskmgr =
        \<lparr>TaskManager.ThreadModel = \<lparr>TasksRunning = 0, WorkerThreads = 0\<rparr>\<rparr>\<rparr>"

record IscServer =
  QueriesIn :: QueriesIn
  Requests :: Requests

record IscStatistics =
  Server :: IscServer

record IscBind =
  Statistics :: IscStatistics

record Isc =
  Bind :: IscBind

section \<open>Metrics\<close>

text \<open>
  A descriptor as \<open>prometheus.NewDesc\<close> builds it, and the two kinds of metric the
  exporter sends: \<open>MustNewConstMetric\<close> and \<open>MustNewConstHistogram\<close> (whose sum is always
  \<open>math.NaN()\<close>). Both panic when the number of label values differs from the number of
  the descriptor's labels; every call of the exporter passes as many values as its
  descriptor has labels. The help text and the constant labels (always \<open>nil\<close>) of a
  descriptor are left out. A sample \<open>float64(s.Counter)\<close> is the counter's value, without
  the rounding above \<open>2^53\<close>.
\<close>

definition BuildFQName :: "string \<Rightarrow> string \<Rightarrow> string \<Rightarrow> string" where
  "BuildFQName namespace subsystem name =
     (if name = [] then []
      else if namespace \<noteq> [] \<and> subsystem \<noteq> [] then namespace @ ''_'' @ subsystem @ ''_'' @ name
      else if namespace \<noteq> [] then namespace @ ''_'' @ name
      else if subsystem \<noteq> [] then subsystem @ ''_'' @ name
      else name)"

record Desc =
  fqName :: string
  variableLabels :: "string list"

definition NewDesc :: "string \<Rightarrow> string list \<Rightarrow> Desc" where
  "NewDesc fq labels = \<lparr>fqName = fq, variableLabels = labels\<rparr>"

datatype ValueType = CounterValue | GaugeValue

datatype Metric =
    ConstMetric Desc ValueType float64 "string list"
  | ConstHistogram Desc uint64 buckets "string list"

definition MustNewConstMetric :: "Desc \<Rightarrow> ValueType \<Rightarrow> float64 \<Rightarrow> string list \<Rightarrow> Metric" where
  "MustNewConstMetric desc valueType v labelValues = ConstMetric desc valueType v labelValues"

definition MustNewConstHistogram :: "Desc \<Rightarrow> uint64 \<Rightarrow> buckets \<Rightarrow> string list \<Rightarrow> Metric" where
  "MustNewConstHistogram desc cnt bs labelValues = ConstHistogram desc cnt bs labelValues"

definition float64_of :: "uint64 \<Rightarrow> float64" where
  "float64_of c = Finite (of_nat (unat c))"

definition namespace :: string where
  "namespace = ''bind''"

definition resolver :: string where
  "resolver = ''resolver''"

definition up :: Desc where
  "up = NewDesc (BuildFQName namespace [] ''up'') []"

definition incomingQueries :: Desc where
  "incomingQueries = NewDesc (BuildFQName namespace [] ''incoming_queries_total'') [''type'']"

definition incomingRequests :: Desc where
  "incomingRequests = NewDesc (BuildFQName namespace [] ''incoming_requests_total'') [''name'']"

definition resolverCache :: Desc where
  "resolverCache = NewDesc (BuildFQName namespace resolver ''cache_rrsets'') [''view'', ''type'']"

definition resolverQueries :: Desc where
  "resolverQueries = NewDesc (BuildFQName namespace resolver ''queries_total'') [''view'', ''type'']"

definition resolverQueryDuration :: Desc where
  "resolverQueryDuration =
     NewDesc (BuildFQName namespace resolver ''query_duration_seconds'') [''view'']"

definition resolverQueryErrors :: Desc where
  "resolverQueryErrors =
     NewDesc (BuildFQName namespace resolver ''query_errors_total'') [''view'', ''error'']"

definition resolverResponseErrors :: Desc where
  "resolverResponseErrors =
     NewDesc (BuildFQName namespace resolver ''response_errors_total'') [''view'', ''error'']"

definition resolverDNSSECSucess :: Desc where
  "resolverDNSSECSucess =
     NewDesc (BuildFQName namespace resolver ''dnssec_validation_success_total'')
       [''view'', ''result'']"

definition resolverMetricStats :: "string \<rightharpoonup> Desc" where
  "resolverMetricStats = map_of
     [(''Lame'', NewDesc (BuildFQName namespace resolver ''response_lame_total'') [''view'']),
      (''EDNS0Fail'', NewDesc (BuildFQName namespace resolver ''query_edns0_errors_total'') [''view'']),
      (''Mismatch'', NewDesc (BuildFQName namespace resolver ''response_mismatch_total'') [''view'']),
      (''Retry'', NewDesc (BuildFQName namespace resolver ''query_retries_total'') [''view'']),
      (''Truncated'', NewDesc (BuildFQName namespace resolver ''response_truncated_total'') [''view'']),
      (''ValFail'',
         NewDesc (BuildFQName namespace resolver ''dnssec_validation_errors_total'') [''view''])]"

definition resolverLabelStats :: "string \<rightharpoonup> Desc" where
  "resolverLabelStats = map_of
     [(''QueryAbort'', resolverQueryErrors),
      (''QuerySockFail'', resolverQueryErrors),
      (''QueryTimeout'', resolverQueryErrors),
      (''NXDOMAIN'', resolverResponseErrors),
      (''SERVFAIL'', resolverResponseErrors),
      (''FORMERR'', resolverResponseErrors),
      (''OtherError'', resolverResponseErrors),
      (''ValOk'', resolverDNSSECSucess),
      (''ValNegOk'', resolverDNSSECSucess)]"

definition serverQueryErrors :: Desc where
  "serverQueryErrors = NewDesc (BuildFQName namespace [] ''query_errors_total'') [''error'']"

definition serverReponses :: Desc where
  "serverReponses = NewDesc (BuildFQName namespace [] ''responses_total'') [''result'']"

definition serverLabelStats :: "string \<rightharpoonup> Desc" where
  "serverLabelStats = map_of
     [(''QryDuplicate'', serverQueryErrors),
      (''QryDropped'', serverQueryErrors),
      (''QryFailure'', serverQueryErrors),
      (''QrySuccess'', serverReponses),
      (''QryReferral'', serverReponses),
      (''QryNxrrset'', serverReponses),
      (''QrySERVFAIL'', serverReponses),
      (''QryFORMERR'', serverReponses),
      (''QryNXDOMAIN'', serverReponses)]"

definition tasksRunning :: Desc where
  "tasksRunning = NewDesc (BuildFQName namespace [] ''tasks_running'') []"

definition workerThreads :: Desc where
  "workerThreads = NewDesc (BuildFQName namespace [] ''worker_threads'') []"

section \<open>The exporter\<close>

text \<open>
  A call either returns a value, returns an error, or panics. The HTTP client is a
  function from the requests made so far and the requested URI to the response or the
  transport error; the list of requested URIs is the state of the network. \<open>Body\<close> is
  what \<open>ioutil.ReadAll(resp.Body)\<close> returns.
\<close>

datatype 'a outcome = Ok 'a | Err error | Panic

record Response =
  StatusCode :: int
  Status :: string
  Body :: "error + string"

type_synonym requests = "string list"

type_synonym Client = "requests \<Rightarrow> string \<Rightarrow> error + Response"

definition Get :: "Client \<Rightarrow> string \<Rightarrow> requests \<Rightarrow> (error + Response) \<times> requests" where
  "Get c uri reqs = (c reqs uri, reqs @ [uri])"

text \<open>The deferred function of both \<open>Collect\<close> methods: it sends \<open>up\<close> with the status.\<close>

definition sendUp :: "float64 \<Rightarrow> Metric list" where
  "sendUp status = [MustNewConstMetric up GaugeValue status []]"

subsection \<open>The single-fetch collector\<close>

text \<open>
  The second source file holds an exporter without version detection: its \<open>Collect\<close>
  fetches \<open>e.URI\<close> once and unmarshals the body into an \<open>Isc\<close>. Its names carry the
  suffix \<open>_Isc\<close> here.
\<close>

record Exporter_Isc =
  URI :: string
  client :: Client

definition incomingQueries_Isc :: Desc where
  "incomingQueries_Isc = NewDesc (BuildFQName namespace [] ''incoming_queries_total'') [''name'']"

definition incomingRequests_Isc :: Desc where
  "incomingRequests_Isc = NewDesc (BuildFQName namespace [] ''incoming_requests_total'') [''name'']"

definition Collect_Isc ::
  "(string \<Rightarrow> error + Isc) \<Rightarrow> Exporter_Isc \<Rightarrow> requests \<Rightarrow> Metric list \<times> requests"
where
  "Collect_Isc Unmarshal e reqs =
     (let (r, reqs) = Get (Exporter_Isc.client e) (Exporter_Isc.URI e) reqs in
      case r of
        Inl err \<Rightarrow> (sendUp (Finite 0), reqs)
      | Inr resp \<Rightarrow>
          (case Body resp of
             Inl err \<Rightarrow> (sendUp (Finite 0), reqs)
           | Inr body \<Rightarrow>
               (case Unmarshal body of
                  Inl err \<Rightarrow> (sendUp (Finite 1), reqs)
                | Inr tree \<Rightarrow>
                    (let serverNode = IscStatistics.Server (IscBind.Statistics (Isc.Bind tree)) in
                     (concat (map (\<lambda>s. [MustNewConstMetric incomingQueries_Isc CounterValue
                                          (float64_of (StatV2.Counter s)) [StatV2.Name s]])
                                (QueriesIn.Rdtype (IscServer.QueriesIn serverNode)))
                      @ concat (map (\<lambda>s. [MustNewConstMetric incomingRequests_Isc CounterValue
                                            (float64_of (StatV2.Counter s)) [StatV2.Name s]])
                                  (Opcode (IscServer.Requests serverNode)))
                      @ sendUp (Finite 1), reqs)))))"

subsection \<open>The exporter with version detection\<close>

record Exporter =
  URI :: string
  metrics :: "string list"
  version :: string
  client :: Client

text \<open>
  \<open>NewExporter\<close> leaves \<open>version\<close> at its zero value. The client it builds, with the
  timeout in its dialer, is the parameter \<open>c\<close>.
\<close>

definition NewExporter :: "string \<Rightarrow> string list \<Rightarrow> Client \<Rightarrow> Exporter" where
  "NewExporter uri ms c = \<lparr>URI = uri, metrics = ms, version = [], client = c\<rparr>"

text \<open>
  The variable \<open>root\<close> of the source is \<open>tree\<close> here. What the exporter calls and
  the two source files do not define: \<open>strconv.ParseFloat\<close>,
  \<open>xml.Unmarshal\<close> into each of the root types (into a \<open>BindRootV3\<close> that already holds
  the groups read before), and the method \<open>dedup\<close> of \<open>BindRootV3\<close>.
\<close>

record Runtime =
  ParseFloat :: "string \<Rightarrow> float64 option"
  UnmarshalV2 :: "string \<Rightarrow> error + BindRootV2"
  UnmarshalV3 :: "string \<Rightarrow> BindRootV3 \<Rightarrow> error + BindRootV3"
  dedup :: "BindRootV3 \<Rightarrow> BindRootV3"

text \<open>\<open>e.URI[len(e.URI)-1]\<close> panics on the empty string.\<close>

definition GetV3URI :: "Exporter \<Rightarrow> string \<Rightarrow> string outcome" where
  "GetV3URI e metric =
     (if URI e = [] then Panic
      else if last (URI e) = CHR ''/'' then Ok (URI e @ ''xml/v3/'' @ metric)
      else Ok (URI e @ ''/xml/v3/'' @ metric))"

text \<open>
  \<open>GetVersion\<close> and \<open>Collect\<close> have pointer receivers; they return the exporter as they
  leave it. No method of the source assigns a field of its receiver.
\<close>

definition GetVersion :: "Exporter \<Rightarrow> requests \<Rightarrow> string outcome \<times> Exporter \<times> requests" where
  "GetVersion e reqs =
     (if version e \<noteq> [] then (Ok (version e), e, reqs)
      else case GetV3URI e ''status'' of
        Panic \<Rightarrow> (Panic, e, reqs)
      | Err err \<Rightarrow> (Err err, e, reqs)
      | Ok uri \<Rightarrow>
          (let (r, reqs') = Get (client e) uri reqs in
           case r of
             Inl err \<Rightarrow> (Err err, e, reqs')
           | Inr resp \<Rightarrow>
               if StatusCode resp \<ge> 500 then (Err (StatusError (Status resp)), e, reqs')
               else if StatusCode resp < 300 \<and> StatusCode resp \<ge> 200 then (Ok ''v3'', e, reqs')
               else (Ok ''v2'', e, reqs')))"

definition Fetch :: "Exporter \<Rightarrow> string \<Rightarrow> requests \<Rightarrow> (error + string) \<times> requests" where
  "Fetch e uri reqs =
     (let (r, reqs') = Get (client e) uri reqs in
      case r of
        Inl err \<Rightarrow> (Inl err, reqs')
      | Inr resp \<Rightarrow> (Body resp, reqs'))"

definition FetchV2 :: "Runtime \<Rightarrow> Exporter \<Rightarrow> requests \<Rightarrow> (error + BindRootV2) \<times> requests" where
  "FetchV2 rt e reqs =
     (let (r, reqs') = Fetch e (URI e) reqs in
      case r of
        Inl err \<Rightarrow> (Inl err, reqs')
      | Inr body \<Rightarrow> (UnmarshalV2 rt body, reqs'))"

fun FetchV3_loop ::
  "Runtime \<Rightarrow> Exporter \<Rightarrow> string list \<Rightarrow> BindRootV3 \<Rightarrow> requests \<Rightarrow> BindRootV3 outcome \<times> requests"
where
  "FetchV3_loop rt e [] tree reqs = (Ok tree, reqs)"
| "FetchV3_loop rt e (metric # ms) tree reqs =
     (case GetV3URI e metric of
        Panic \<Rightarrow> (Panic, reqs)
      | Err err \<Rightarrow> (Err err, reqs)
      | Ok uri \<Rightarrow>
          (let (r, reqs') = Fetch e uri reqs in
           case r of
             Inl err \<Rightarrow> (Err err, reqs')
           | Inr body \<Rightarrow>
               (case UnmarshalV3 rt body tree of
                  Inl err \<Rightarrow> (Err err, reqs')
                | Inr tree' \<Rightarrow> FetchV3_loop rt e ms tree' reqs')))"

definition FetchV3 :: "Runtime \<Rightarrow> Exporter \<Rightarrow> requests \<Rightarrow> BindRootV3 outcome \<times> requests" where
  "FetchV3 rt e reqs =
     (let (r, reqs') = FetchV3_loop rt e (metrics e) zeroBindRootV3 reqs in
      case r of
        Ok tree \<Rightarrow> (Ok (dedup rt tree), reqs')
      | Err err \<Rightarrow> (Err err, reqs')
      | Panic \<Rightarrow> (Panic, reqs'))"

subsection \<open>Mapping the counters\<close>

text \<open>The metrics are listed in the order they are sent on the channel.\<close>

definition nsStat :: "string \<Rightarrow> uint64 \<Rightarrow> Metric list" where
  "nsStat name c =
     (case serverLabelStats name of
        Some desc \<Rightarrow>
          (let r = TrimPrefix name ''Qry'' in
           [MustNewConstMetric desc CounterValue (float64_of c) [r]])
      | None \<Rightarrow> [])"

definition resStat :: "string \<Rightarrow> string \<Rightarrow> uint64 \<Rightarrow> Metric list" where
  "resStat view name c =
     (case resolverMetricStats name of
        Some desc \<Rightarrow> [MustNewConstMetric desc CounterValue (float64_of c) [view]]
      | None \<Rightarrow> [])
     @ (case resolverLabelStats name of
        Some desc \<Rightarrow> [MustNewConstMetric desc CounterValue (float64_of c) [view, name]]
      | None \<Rightarrow> [])"

definition queryDuration :: "string \<Rightarrow> buckets \<times> uint64 \<times> error option \<Rightarrow> Metric list" where
  "queryDuration view h =
     (case h of
        (bs, cnt, None) \<Rightarrow> [MustNewConstHistogram resolverQueryDuration cnt bs [view]]
      | (bs, cnt, Some err) \<Rightarrow> [])"

definition taskMetrics :: "ThreadModel \<Rightarrow> Metric list" where
  "taskMetrics threadModel =
     [MustNewConstMetric tasksRunning GaugeValue (float64_of (TasksRunning threadModel)) [],
      MustNewConstMetric workerThreads GaugeValue (float64_of (WorkerThreads threadModel)) []]"

definition viewV2 :: "(string \<Rightarrow> float64 option) \<Rightarrow> ViewV2 \<Rightarrow> Metric list" where
  "viewV2 pf v =
     concat (map (\<lambda>s. [MustNewConstMetric resolverCache GaugeValue
                         (float64_of (StatV2.Counter s)) [ViewV2.Name v, StatV2.Name s]])
               (ViewV2.Cache v))
     @ concat (map (\<lambda>s. [MustNewConstMetric resolverQueries CounterValue
                           (float64_of (StatV2.Counter s)) [ViewV2.Name v, StatV2.Name s]])
                 (ViewV2.Rdtype v))
     @ concat (map (\<lambda>s. resStat (ViewV2.Name v) (StatV2.Name s) (StatV2.Counter s))
                 (ViewV2.Resstat v))
     @ queryDuration (ViewV2.Name v) (histogramV2 pf (ViewV2.Resstat v))"

definition UpdateV2 :: "(string \<Rightarrow> float64 option) \<Rightarrow> Exporter \<Rightarrow> BindRootV2 \<Rightarrow> Metric list" where
  "UpdateV2 pf e tree =
     (let stats = BindV2.Statistics (BindRootV2.Bind tree) in
      concat (map (\<lambda>s. [MustNewConstMetric incomingQueries CounterValue
                          (float64_of (StatV2.Counter s)) [StatV2.Name s]])
                (QueriesIn.Rdtype (ServerV2.QueriesIn (StatisticsV2.Server stats))))
      @ concat (map (\<lambda>s. [MustNewConstMetric incomingRequests CounterValue
                            (float64_of (StatV2.Counter s)) [StatV2.Name s]])
                  (Opcode (ServerV2.Requests (StatisticsV2.Server stats))))
      @ concat (map (\<lambda>s. nsStat (StatV2.Name s) (StatV2.Counter s))
                  (NsStats (StatisticsV2.Server stats)))
      @ concat (map (viewV2 pf) (StatisticsV2.Views stats))
      @ taskMetrics (TaskManager.ThreadModel (StatisticsV2.Taskmgr stats)))"

definition serverCountersV3 :: "CountersV3 \<Rightarrow> Metric list" where
  "serverCountersV3 counters =
     (if Type counters = ''qtype'' then
        concat (map (\<lambda>c. [MustNewConstMetric incomingQueries CounterValue
                            (float64_of (CounterV3.Counter c)) [CounterV3.Name c]])
                  (CountersV3.Counter counters))
      else if Type counters = ''opcode'' then
        concat (map (\<lambda>c. [MustNewConstMetric incomingRequests CounterValue
                            (float64_of (CounterV3.Counter c)) [CounterV3.Name c]])
                  (CountersV3.Counter counters))
      else if Type counters = ''nsstat'' then
        concat (map (\<lambda>c. nsStat (CounterV3.Name c) (CounterV3.Counter c))
                  (CountersV3.Counter counters))
      else [])"

definition viewCountersV3 :: "(string \<Rightarrow> float64 option) \<Rightarrow> ViewV3 \<Rightarrow> CountersV3 \<Rightarrow> Metric list" where
  "viewCountersV3 pf v c =
     (if Type c = ''resqtype'' then
        concat (map (\<lambda>c. [MustNewConstMetric resolverQueries CounterValue
                            (float64_of (CounterV3.Counter c)) [ViewV3.Name v, CounterV3.Name c]])
                  (CountersV3.Counter c))
      else [])
     @ (if Type c = ''resstats'' then
          concat (map (\<lambda>c. resStat (ViewV3.Name v) (CounterV3.Name c) (CounterV3.Counter c))
                    (CountersV3.Counter c))
          @ queryDuration (ViewV3.Name v) (histogramV3 pf (CountersV3.Counter c))
        else [])"

definition viewV3 :: "(string \<Rightarrow> float64 option) \<Rightarrow> ViewV3 \<Rightarrow> Metric list" where
  "viewV3 pf v =
     concat (map (\<lambda>c. [MustNewConstMetric resolverCache GaugeValue
                         (float64_of (CounterV3.Counter c)) [ViewV3.Name v, CounterV3.Name c]])
               (ViewV3.Cache v))
     @ concat (map (viewCountersV3 pf v) (ViewV3.Counters v))"

definition UpdateV3 :: "(string \<Rightarrow> float64 option) \<Rightarrow> Exporter \<Rightarrow> BindRootV3 \<Rightarrow> Metric list" where
  "UpdateV3 pf e tree =
     concat (map serverCountersV3 (ServerV3.Counters (BindRootV3.Server tree)))
     @ concat (map (viewV3 pf) (BindRootV3.Views tree))
     @ taskMetrics (TaskManager.ThreadModel (BindRootV3.Taskmgr tree))"

subsection \<open>Collect\<close>

text \<open>
  \<open>Collect\<close> yields the metrics sent on the channel, in order, and whether it returned
  or panicked. The deferred function sends \<open>up\<close> last, also when the body panics.
\<close>

datatype completion = Returned | Panicked

definition Collect ::
  "Runtime \<Rightarrow> Exporter \<Rightarrow> requests \<Rightarrow> (Metric list \<times> completion) \<times> Exporter \<times> requests"
where
  "Collect rt e reqs =
     (let (r, e, reqs) = GetVersion e reqs in
      case r of
        Panic \<Rightarrow> ((sendUp (Finite 0), Panicked), e, reqs)
      | Err err \<Rightarrow> ((sendUp (Finite 0), Returned), e, reqs)
      | Ok ver \<Rightarrow>
          if ver = ''v3'' then
            (let (r, reqs) = FetchV3 rt e reqs in
             case r of
               Panic \<Rightarrow> ((sendUp (Finite 0), Panicked), e, reqs)
             | Err err \<Rightarrow> ((sendUp (Finite 0), Returned), e, reqs)
             | Ok tree \<Rightarrow>
                 ((UpdateV3 (ParseFloat rt) e tree @ sendUp (Finite 1), Returned), e, reqs))
          else
            (let (r, reqs) = FetchV2 rt e reqs in
             case r of
               Inl err \<Rightarrow> ((sendUp (Finite 0), Returned), e, reqs)
             | Inr tree \<Rightarrow>
                 ((UpdateV2 (ParseFloat rt) e tree @ sendUp (Finite 1), Returned), e, reqs)))"

text \<open>The value of the \<open>up\<close> sample among the metrics of one scrape.\<close>

fun upValues :: "Metric list \<Rightarrow> float64 list" where
  "upValues [] = []"
| "upValues (ConstMetric d t v ls # ms) = (if d = up then v # upValues ms else upValues ms)"
| "upValues (ConstHistogram d c bs ls # ms) = upValues ms"

text \<open>Scrape after scrape: \<open>n\<close> calls of \<open>Collect\<close>, each on the exporter the last one left.\<close>

fun scrapes ::
  "Runtime \<Rightarrow> nat \<Rightarrow> Exporter \<Rightarrow> requests \<Rightarrow> (Metric list \<times> completion) list \<times> Exporter \<times> requests"
where
  "scrapes rt 0 e reqs = ([], e, reqs)"
| "scrapes rt (Suc n) e reqs =
     (let (out, e', reqs') = Collect rt e reqs;
          (outs, e'', reqs'') = scrapes rt n e' reqs'
      in (out # outs, e'', reqs''))"

section \<open>Notions for the statements\<close>

text \<open>The zero values \<open>BindRootV2{}\<close> and \<open>Isc{}\<close>.\<close>

definition zeroBindRootV2 :: BindRootV2 where
  "zeroBindRootV2 =
     \<lparr>BindRootV2.Bind = \<lparr>BindV2.Statistics =
        \<lparr>StatisticsV2.Server =
           \<lparr>ServerV2.QueriesIn = \<lparr>QueriesIn.Rdtype = []\<rparr>,
            ServerV2.Requests = \<lparr>Opcode = []\<rparr>,
            NsStats = []\<rparr>,
         StatisticsV2.Views = [],
         StatisticsV2.Taskmgr =
           \<lparr>TaskManager.ThreadModel = \<lparr>TasksRunning = 0, WorkerThreads = 0\<rparr>\<rparr>\<rparr>\<rparr>\<rparr>"

definition zeroIsc :: Isc where
  "zeroIsc =
     \<lparr>Isc.Bind = \<lparr>IscBind.Statistics = \<lparr>IscStatistics.Server =
        \<lparr>IscServer.QueriesIn = \<lparr>QueriesIn.Rdtype = []\<rparr>,
         IscServer.Requests = \<lparr>Opcode = []\<rparr>\<rparr>\<rparr>\<rparr>\<rparr>"

text \<open>A tree with its name-server operational counters replaced.\<close>

definition withNsStats :: "StatV2 list \<Rightarrow> BindRootV2 \<Rightarrow> BindRootV2" where
  "withNsStats xs tree =
     tree\<lparr>BindRootV2.Bind :=
       (BindRootV2.Bind tree)\<lparr>BindV2.Statistics :=
         (BindV2.Statistics (BindRootV2.Bind tree))\<lparr>StatisticsV2.Server :=
           (StatisticsV2.Server (BindV2.Statistics (BindRootV2.Bind tree)))\<lparr>NsStats := xs\<rparr>\<rparr>\<rparr>\<rparr>"

text \<open>
  For the statements about the builders: the RTT counters of a list in input order, each
  as the key \<open>b/1000\<close> and the count the builders read from it (a counter whose name does
  not parse has none), and the running sums of a list of counts from a start value.
\<close>

definition rttPairsV2 :: "(string \<Rightarrow> float64 option) \<Rightarrow> StatV2 list \<Rightarrow> (float64 \<times> uint64) list" where
  "rttPairsV2 pf stats =
     concat (map (\<lambda>s. if HasPrefix (StatV2.Name s) qryRTT then
                         (case rttBound pf (StatV2.Name s) of
                            Inl err \<Rightarrow> []
                          | Inr b \<Rightarrow> [(div1000 b, StatV2.Counter s)])
                       else []) stats)"

definition rttPairsV3 :: "(string \<Rightarrow> float64 option) \<Rightarrow> CounterV3 list \<Rightarrow> (float64 \<times> uint64) list" where
  "rttPairsV3 pf counters =
     concat (map (\<lambda>s. if HasPrefix (CounterV3.Name s) qryRTT then
                         (case rttBound pf (CounterV3.Name s) of
                            Inl err \<Rightarrow> []
                          | Inr b \<Rightarrow> [(div1000 b, CounterV3.Counter s)])
                       else []) counters)"

fun runningSums :: "uint64 \<Rightarrow> uint64 list \<Rightarrow> uint64 list" where
  "runningSums c [] = []"
| "runningSums c (v # vs) = (c + v) # runningSums (c + v) vs"

text \<open>
  A bucket map read in the order of its bounds: the bounds strictly ascending, the counts
  non-decreasing.
\<close>

definition ascending :: "buckets \<Rightarrow> bool" where
  "ascending bs =
     (sorted_wrt (<) (map fst (sort_key fst bs)) \<and> sorted (map snd (sort_key fst bs)))"

text \<open>
  A list of assignments made one after the other, and the two parts of a bucket map: the
  entries with a key other than NaN, and those with the key NaN.
\<close>

definition writes :: "buckets \<Rightarrow> (float64 \<times> uint64) list \<Rightarrow> buckets" where
  "writes m ps = foldl (\<lambda>m (k, v). assign k v m) m ps"

definition regular :: "buckets \<Rightarrow> buckets" where
  "regular m = filter (\<lambda>p. fst p \<noteq> NaN) m"

definition nans :: "buckets \<Rightarrow> buckets" where
  "nans m = filter (\<lambda>p. fst p = NaN) m"

text \<open>Every RTT counter of the list has a name the builders can read a bound from.\<close>

definition parsesV2 :: "(string \<Rightarrow> float64 option) \<Rightarrow> StatV2 list \<Rightarrow> bool" where
  "parsesV2 pf stats = (\<forall>s \<in> set stats. HasPrefix (StatV2.Name s) qryRTT \<longrightarrow>
      (\<exists>b. rttBound pf (StatV2.Name s) = Inr b))"

definition parsesV3 :: "(string \<Rightarrow> float64 option) \<Rightarrow> CounterV3 list \<Rightarrow> bool" where
  "parsesV3 pf cs = (\<forall>s \<in> set cs. HasPrefix (CounterV3.Name s) qryRTT \<longrightarrow>
      (\<exists>b. rttBound pf (CounterV3.Name s) = Inr b))"

section \<open>Sample inputs\<close>

text \<open>
  A parser for the examples: on a non-empty string of decimal digits it returns the
  number, as \<open>strconv.ParseFloat\<close> does (exactly, below \<open>2^24\<close>), and on the string \<open>NaN\<close>
  it returns NaN; on any other string it reports an error, which is what
  \<open>strconv.ParseFloat\<close> does on the strings it is given in this development.
\<close>

definition digitVal :: "char \<Rightarrow> nat option" where
  "digitVal c =
     map_of [(CHR ''0'', 0), (CHR ''1'', 1), (CHR ''2'', 2), (CHR ''3'', 3), (CHR ''4'', 4),
             (CHR ''5'', 5), (CHR ''6'', 6), (CHR ''7'', 7), (CHR ''8'', 8), (CHR ''9'', 9)] c"

fun parseDigits :: "string \<Rightarrow> nat \<Rightarrow> nat option" where
  "parseDigits [] acc = Some acc"
| "parseDigits (c # cs) acc =
     (case digitVal c of None \<Rightarrow> None | Some d \<Rightarrow> parseDigits cs (10 * acc + d))"

definition parseDecimal :: "string \<Rightarrow> float64 option" where
  "parseDecimal s =
     (if s = [] then None
      else if s = ''NaN'' then Some NaN
      else case parseDigits s 0 of None \<Rightarrow> None | Some n \<Rightarrow> Some (Finite (of_nat n)))"

text \<open>A server that answers every request with the status code \<open>s\<close> and an empty body.\<close>

definition probeClient :: "int \<Rightarrow> Client" where
  "probeClient s reqs uri = Inr \<lparr>StatusCode = s, Status = ''status'', Body = Inr []\<rparr>"

text \<open>
  A runtime for the examples: \<open>xml.Unmarshal\<close> fails on the empty document, as it does
  in Go (with \<open>EOF\<close>), and here reads nothing from any other; \<open>dedup\<close> changes nothing.
\<close>

definition sampleRuntime :: Runtime where
  "sampleRuntime =
     \<lparr>ParseFloat = parseDecimal,
      UnmarshalV2 = (\<lambda>body. if body = [] then Inl (UnmarshalError ''EOF'') else Inr zeroBindRootV2),
      UnmarshalV3 = (\<lambda>body tree. if body = [] then Inl (UnmarshalError ''EOF'') else Inr tree),
      dedup = (\<lambda>tree. tree)\<rparr>"

definition sampleUnmarshal_Isc :: "string \<Rightarrow> error + Isc" where
  "sampleUnmarshal_Isc body = (if body = [] then Inl (UnmarshalError ''EOF'') else Inr zeroIsc)"

text \<open>
  A server that answers the \<open>n\<close>-th request and every later one with an empty body, and
  the requests before with the body \<open><x/>\<close>, all with status 200.
\<close>

definition emptyFrom :: "nat \<Rightarrow> Client" where
  "emptyFrom n reqs uri =
     Inr \<lparr>StatusCode = 200, Status = ''200 OK'',
          Body = Inr (if n \<le> length reqs then [] else ''<x/>'')\<rparr>"

section \<open>Properties\<close>

subsection \<open>Version detection and request paths\<close>

text \<open>
  C2. When the probe is answered with status code \<open>s\<close>, \<open>GetVersion\<close> returns \<open>v3\<close> for
  \<open>200 \<le> s < 300\<close>, \<open>v2\<close> for every other \<open>s\<close> below 500, and the error made of the
  status line, and no version, for \<open>s \<ge> 500\<close>.
\<close>

theorem GetVersion_by_status:
  assumes "version e = []" and "GetV3URI e ''status'' = Ok uri"
    and "client e reqs uri = Inr resp"
  shows "fst (GetVersion e reqs) =
     (if 200 \<le> StatusCode resp \<and> StatusCode resp < 300 then Ok ''v3''
      else if StatusCode resp < 500 then Ok ''v2''
      else Err (StatusError (Status resp)))"
  using assms by (simp add: GetVersion_def Get_def)

theorem GetVersion_by_status_witness:
  "version (NewExporter ''http://localhost:8053/'' [] (probeClient 404)) = []
   \<and> GetV3URI (NewExporter ''http://localhost:8053/'' [] (probeClient 404)) ''status''
       = Ok ''http://localhost:8053/xml/v3/status''
   \<and> fst (GetVersion (NewExporter ''http://localhost:8053/'' [] (probeClient 404)) []) = Ok ''v2''"
proof -
  let ?e = "NewExporter ''http://localhost:8053/'' [] (probeClient 404)"
  have v: "version ?e = []"
    by (simp add: NewExporter_def)
  have u: "GetV3URI ?e ''status'' = Ok ''http://localhost:8053/xml/v3/status''"
    by (simp add: NewExporter_def GetV3URI_def)
  have c: "client ?e [] ''http://localhost:8053/xml/v3/status''
     = Inr \<lparr>StatusCode = 404, Status = ''status'', Body = Inr []\<rparr>"
    by (simp add: NewExporter_def probeClient_def)
  show ?thesis
    using GetVersion_by_status [OF v u c] v u by simp
qed

text \<open>
  C6 (as amended). For a base URI that does not end with a slash, \<open>GetV3URI\<close> gives the
  same path for the base URI (when it is not empty) and for the base URI with one slash
  appended: the base URI, one slash, \<open>xml/v3/\<close> and the group. In general it appends
  \<open>xml/v3/\<close> and the group to a URI that ends with a slash, and a slash before them to
  any other non-empty URI.
\<close>

theorem GetV3URI_one_separator:
  "(u \<noteq> [] \<and> last u \<noteq> CHR ''/'' \<longrightarrow>
      GetV3URI (e\<lparr>URI := u\<rparr>) g = Ok (u @ ''/'' @ ''xml/v3/'' @ g))
   \<and> (u = [] \<or> last u \<noteq> CHR ''/'' \<longrightarrow>
      GetV3URI (e\<lparr>URI := u @ ''/''\<rparr>) g = Ok (u @ ''/'' @ ''xml/v3/'' @ g))
   \<and> (URI e \<noteq> [] \<longrightarrow>
      GetV3URI e g =
        Ok (URI e @ (if last (URI e) = CHR ''/'' then [] else ''/'') @ ''xml/v3/'' @ g))"
  by (auto simp: GetV3URI_def)

theorem GetV3URI_one_separator_witness:
  "''http://h:1'' \<noteq> [] \<and> last ''http://h:1'' \<noteq> CHR ''/''
   \<and> URI (NewExporter ''http://h:1/v//'' [] (probeClient 200)) \<noteq> []
   \<and> GetV3URI (NewExporter ''http://h:1'' [] (probeClient 200)) ''server'' = Ok ''http://h:1/xml/v3/server''
   \<and> GetV3URI (NewExporter ''http://h:1/'' [] (probeClient 200)) ''server'' = Ok ''http://h:1/xml/v3/server''
   \<and> GetV3URI (NewExporter ''/'' [] (probeClient 200)) ''server'' = Ok ''/xml/v3/server''
   \<and> GetV3URI (NewExporter ''http://h:1/v//'' [] (probeClient 200)) ''server''
       = Ok ''http://h:1/v//xml/v3/server''"
  using GetV3URI_one_separator [of "''http://h:1''" "NewExporter [] [] (probeClient 200)" "''server''"]
    GetV3URI_one_separator [of "[]" "NewExporter [] [] (probeClient 200)" "''server''"]
    GetV3URI_one_separator [of "[]" "NewExporter ''http://h:1/v//'' [] (probeClient 200)" "''server''"]
  by (simp add: NewExporter_def)

text \<open>
  C6 as stated fails: \<open>GetV3URI\<close> looks at the last byte only. A base URI that ends with
  two slashes keeps both, so its path has two separators before \<open>xml/v3/\<close> and differs
  from the path of the base URI with one slash.
\<close>

theorem GetV3URI_one_separator_counterexample:
  "GetV3URI (NewExporter ''http://h:1//'' [] (probeClient 200)) ''server''
     = Ok ''http://h:1//xml/v3/server''
   \<and> GetV3URI (NewExporter ''http://h:1/'' [] (probeClient 200)) ''server''
     = Ok ''http://h:1/xml/v3/server''
   \<and> GetV3URI (NewExporter ''http://h:1//'' [] (probeClient 200)) ''server''
     \<noteq> GetV3URI (NewExporter ''http://h:1/'' [] (probeClient 200)) ''server''"
  by (simp add: GetV3URI_def NewExporter_def)

lemma FetchV3_loop_no_panic:
  "URI e \<noteq> [] \<Longrightarrow> fst (FetchV3_loop rt e ms tree reqs) \<noteq> Panic"
  by (induction ms arbitrary: tree reqs)
     (auto simp: GetV3URI_def split: prod.splits sum.splits)

lemma FetchV3_no_panic:
  "URI e \<noteq> [] \<Longrightarrow> fst (FetchV3 rt e reqs) \<noteq> Panic"
  using FetchV3_loop_no_panic [of e rt "metrics e" zeroBindRootV3 reqs]
  by (auto simp: FetchV3_def split: prod.splits outcome.splits)

lemma GetVersion_no_panic:
  "URI e \<noteq> [] \<Longrightarrow> fst (GetVersion e reqs) \<noteq> Panic"
  by (auto simp: GetVersion_def GetV3URI_def Get_def split: sum.splits)

lemma GetVersion_exporter: "fst (snd (GetVersion e reqs)) = e"
  by (auto simp: GetVersion_def Get_def split: outcome.splits sum.splits prod.splits)

lemma Collect_returns:
  assumes "URI e \<noteq> []"
  shows "snd (fst (Collect rt e reqs)) = Returned"
proof -
  obtain r e1 reqs1 where g: "GetVersion e reqs = (r, e1, reqs1)"
    by (cases "GetVersion e reqs") auto
  have e1: "e1 = e"
    using GetVersion_exporter [of e reqs] g by simp
  have r: "r \<noteq> Panic"
    using GetVersion_no_panic [OF assms, of reqs] g by simp
  have "fst (FetchV3 rt e reqs1) \<noteq> Panic"
    by (rule FetchV3_no_panic [OF assms])
  then show ?thesis
    using r by (auto simp: Collect_def g e1 split: outcome.splits prod.splits sum.splits)
qed

text \<open>
  C10. \<open>GetV3URI\<close> panics exactly on the empty base URI. With a non-empty base URI
  neither \<open>GetVersion\<close> nor \<open>FetchV3\<close> panics and \<open>Collect\<close> returns; with the empty base
  URI and no cached version \<open>GetVersion\<close> panics before any request, and \<open>Collect\<close>
  panics, its deferred function having sent \<open>up = 0\<close>, instead of returning an error.
\<close>

theorem GetV3URI_panics_on_empty_URI:
  "(GetV3URI e m = Panic) = (URI e = [])
   \<and> (URI e \<noteq> [] \<longrightarrow>
        fst (GetVersion e reqs) \<noteq> Panic \<and> fst (FetchV3 rt e reqs) \<noteq> Panic
        \<and> snd (fst (Collect rt e reqs)) = Returned)
   \<and> (URI e = [] \<and> version e = [] \<longrightarrow>
        GetVersion e reqs = (Panic, e, reqs)
        \<and> Collect rt e reqs = ((sendUp (Finite 0), Panicked), e, reqs))"
proof -
  have 1: "(GetV3URI e m = Panic) = (URI e = [])"
    by (simp add: GetV3URI_def)
  have 3: "GetVersion e reqs = (Panic, e, reqs)" if "URI e = []" "version e = []"
    using that by (simp add: GetVersion_def GetV3URI_def)
  have 4: "Collect rt e reqs = ((sendUp (Finite 0), Panicked), e, reqs)"
    if "URI e = []" "version e = []"
    using 3 [OF that] by (simp add: Collect_def)
  show ?thesis
    using 1 3 4 GetVersion_no_panic FetchV3_no_panic Collect_returns by blast
qed

theorem GetV3URI_panics_on_empty_URI_witness:
  "URI (NewExporter [] [''server''] (probeClient 200)) = []
   \<and> version (NewExporter [] [''server''] (probeClient 200)) = []
   \<and> URI (NewExporter ''http://h:1'' [''server''] (probeClient 200)) \<noteq> []
   \<and> GetV3URI (NewExporter [] [''server''] (probeClient 200)) ''status'' = Panic
   \<and> snd (fst (Collect sampleRuntime (NewExporter [] [''server''] (probeClient 200)) [])) = Panicked
   \<and> snd (fst (Collect sampleRuntime (NewExporter ''http://h:1'' [''server''] (probeClient 200)) []))
       = Returned"
  using GetV3URI_panics_on_empty_URI
      [of "NewExporter [] [''server''] (probeClient 200)" "''status''" "[]" sampleRuntime]
    GetV3URI_panics_on_empty_URI
      [of "NewExporter ''http://h:1'' [''server''] (probeClient 200)" "''status''" "[]" sampleRuntime]
  by (simp add: NewExporter_def)

subsection \<open>The histogram builders\<close>

text \<open>\<open>histogramV2\<close> reads the RTT counters of a list and no other counter.\<close>

lemma histogramV2_loop_filter:
  "histogramV2_loop pf stats b c
     = histogramV2_loop pf (filter (\<lambda>s. HasPrefix (StatV2.Name s) qryRTT) stats) b c"
  by (induction stats arbitrary: b c) (simp_all split: sum.splits)

text \<open>
  C3. With a parser that reads \<open>10\<close> and \<open>100\<close> as these numbers, \<open>histogramV2\<close> turns every
  list whose RTT counters are \<open>QryRTT10 = 5\<close>, \<open>QryRTT100 = 3\<close>, \<open>QryRTT100+ = 2\<close>, in this
  order, into the buckets \<open>0.01: 5\<close>, \<open>0.1: 8\<close>, \<open>+Inf: 10\<close> and the count 10, whatever
  other counters the list holds. The running sum follows the order of the input: a list
  with the same RTT counters in the opposite order gives \<open>+Inf: 2\<close>, \<open>0.1: 5\<close>,
  \<open>0.01: 10\<close>.
\<close>

theorem histogramV2_input_order:
  assumes "pf ''10'' = Some (Finite 10)" and "pf ''100'' = Some (Finite 100)"
  shows "(filter (\<lambda>s. HasPrefix (StatV2.Name s) qryRTT) stats
            = [\<lparr>StatV2.Name = ''QryRTT10'', Counter = 5\<rparr>,
               \<lparr>StatV2.Name = ''QryRTT100'', Counter = 3\<rparr>,
               \<lparr>StatV2.Name = ''QryRTT100+'', Counter = 2\<rparr>]
          \<longrightarrow> histogramV2 pf stats
            = ([(Finite (1/100), 5), (Finite (1/10), 8), (PosInf, 10)], 10, None))
       \<and> (filter (\<lambda>s. HasPrefix (StatV2.Name s) qryRTT) stats
            = [\<lparr>StatV2.Name = ''QryRTT100+'', Counter = 2\<rparr>,
               \<lparr>StatV2.Name = ''QryRTT100'', Counter = 3\<rparr>,
               \<lparr>StatV2.Name = ''QryRTT10'', Counter = 5\<rparr>]
          \<longrightarrow> histogramV2 pf stats
            = ([(PosInf, 2), (Finite (1/10), 5), (Finite (1/100), 10)], 10, None))"
proof -
  have 1: "histogramV2_loop pf
           [\<lparr>StatV2.Name = ''QryRTT10'', Counter = 5\<rparr>,
            \<lparr>StatV2.Name = ''QryRTT100'', Counter = 3\<rparr>,
            \<lparr>StatV2.Name = ''QryRTT100+'', Counter = 2\<rparr>] [] 0
         = ([(Finite (1/100), 5), (Finite (1/10), 8), (PosInf, 10)], 10, None)"
    using assms
    by (simp add: HasPrefix_def HasSuffix_def TrimPrefix_def qryRTT_def rttBound_def assign_def)
  have 2: "histogramV2_loop pf
           [\<lparr>StatV2.Name = ''QryRTT100+'', Counter = 2\<rparr>,
            \<lparr>StatV2.Name = ''QryRTT100'', Counter = 3\<rparr>,
            \<lparr>StatV2.Name = ''QryRTT10'', Counter = 5\<rparr>] [] 0
         = ([(PosInf, 2), (Finite (1/10), 5), (Finite (1/100), 10)], 10, None)"
    using assms
    by (simp add: HasPrefix_def HasSuffix_def TrimPrefix_def qryRTT_def rttBound_def assign_def)
  show ?thesis
    using 1 2 histogramV2_loop_filter [of pf stats "[]" 0] by (simp add: histogramV2_def)
qed

lemma parseDecimal_10: "parseDecimal ''10'' = Some (Finite 10)"
  by (simp add: parseDecimal_def digitVal_def)

lemma parseDecimal_100: "parseDecimal ''100'' = Some (Finite 100)"
  by (simp add: parseDecimal_def digitVal_def)

theorem histogramV2_input_order_witness:
  "parseDecimal ''10'' = Some (Finite 10) \<and> parseDecimal ''100'' = Some (Finite 100)
   \<and> filter (\<lambda>s. HasPrefix (StatV2.Name s) qryRTT)
        [\<lparr>StatV2.Name = ''Retry'', Counter = 7\<rparr>,
         \<lparr>StatV2.Name = ''QryRTT10'', Counter = 5\<rparr>,
         \<lparr>StatV2.Name = ''Lame'', Counter = 1\<rparr>,
         \<lparr>StatV2.Name = ''QryRTT100'', Counter = 3\<rparr>,
         \<lparr>StatV2.Name = ''QryRTT100+'', Counter = 2\<rparr>]
       = [\<lparr>StatV2.Name = ''QryRTT10'', Counter = 5\<rparr>,
          \<lparr>StatV2.Name = ''QryRTT100'', Counter = 3\<rparr>,
          \<lparr>StatV2.Name = ''QryRTT100+'', Counter = 2\<rparr>]
   \<and> histogramV2 parseDecimal
        [\<lparr>StatV2.Name = ''Retry'', Counter = 7\<rparr>,
         \<lparr>StatV2.Name = ''QryRTT10'', Counter = 5\<rparr>,
         \<lparr>StatV2.Name = ''Lame'', Counter = 1\<rparr>,
         \<lparr>StatV2.Name = ''QryRTT100'', Counter = 3\<rparr>,
         \<lparr>StatV2.Name = ''QryRTT100+'', Counter = 2\<rparr>]
       = ([(Finite (1/100), 5), (Finite (1/10), 8), (PosInf, 10)], 10, None)
   \<and> histogramV2 parseDecimal
        [\<lparr>StatV2.Name = ''QryRTT100+'', Counter = 2\<rparr>,
         \<lparr>StatV2.Name = ''Retry'', Counter = 7\<rparr>,
         \<lparr>StatV2.Name = ''QryRTT100'', Counter = 3\<rparr>,
         \<lparr>StatV2.Name = ''QryRTT10'', Counter = 5\<rparr>]
       = ([(PosInf, 2), (Finite (1/10), 5), (Finite (1/100), 10)], 10, None)"
proof -
  let ?stats = "[\<lparr>StatV2.Name = ''Retry'', Counter = 7\<rparr>,
         \<lparr>StatV2.Name = ''QryRTT10'', Counter = 5\<rparr>,
         \<lparr>StatV2.Name = ''Lame'', Counter = 1\<rparr>,
         \<lparr>StatV2.Name = ''QryRTT100'', Counter = 3\<rparr>,
         \<lparr>StatV2.Name = ''QryRTT100+'', Counter = 2\<rparr>]"
  let ?rev = "[\<lparr>StatV2.Name = ''QryRTT100+'', Counter = 2\<rparr>,
         \<lparr>StatV2.Name = ''Retry'', Counter = 7\<rparr>,
         \<lparr>StatV2.Name = ''QryRTT100'', Counter = 3\<rparr>,
         \<lparr>StatV2.Name = ''QryRTT10'', Counter = 5\<rparr>]"
  have f: "filter (\<lambda>s. HasPrefix (StatV2.Name s) qryRTT) ?stats
       = [\<lparr>StatV2.Name = ''QryRTT10'', Counter = 5\<rparr>,
          \<lparr>StatV2.Name = ''QryRTT100'', Counter = 3\<rparr>,
          \<lparr>StatV2.Name = ''QryRTT100+'', Counter = 2\<rparr>]"
    by (simp add: HasPrefix_def qryRTT_def)
  have g: "filter (\<lambda>s. HasPrefix (StatV2.Name s) qryRTT) ?rev
       = [\<lparr>StatV2.Name = ''QryRTT100+'', Counter = 2\<rparr>,
          \<lparr>StatV2.Name = ''QryRTT100'', Counter = 3\<rparr>,
          \<lparr>StatV2.Name = ''QryRTT10'', Counter = 5\<rparr>]"
    by (simp add: HasPrefix_def qryRTT_def)
  have 1: "histogramV2 parseDecimal ?stats
       = ([(Finite (1/100), 5), (Finite (1/10), 8), (PosInf, 10)], 10, None)"
    using histogramV2_input_order [OF parseDecimal_10 parseDecimal_100, of ?stats] f by blast
  have 2: "histogramV2 parseDecimal ?rev
       = ([(PosInf, 2), (Finite (1/10), 5), (Finite (1/100), 10)], 10, None)"
    using histogramV2_input_order [OF parseDecimal_10 parseDecimal_100, of ?rev] g by blast
  show ?thesis
    using f 1 2 parseDecimal_10 parseDecimal_100 by blast
qed

text \<open>Evaluation of the builders on sample counters.\<close>

lemmas rtt_eval = histogramV2_def histogramV3_def HasPrefix_def HasSuffix_def TrimPrefix_def
  qryRTT_def rttBound_def parseDecimal_def digitVal_def lookup_def assign_def

subsection \<open>Assignments to a bucket map\<close>

lemma regular_assign:
  "regular (assign k v m) = (if k = NaN then regular m else AList.update k v (regular m))"
  by (simp add: regular_def assign_def update_filter [symmetric])

lemma nans_update: "k \<noteq> NaN \<Longrightarrow> nans (AList.update k v m) = nans m"
  by (induction m) (auto simp: nans_def)

lemma nans_assign:
  "nans (assign k v m) = (if k = NaN then nans m @ [(k, v)] else nans m)"
  by (simp add: assign_def nans_update) (simp add: nans_def)

lemma mset_parts: "mset m = mset (regular m) + mset (nans m)"
  by (induction m) (simp_all add: regular_def nans_def)

lemma map_of_regular: "k \<noteq> NaN \<Longrightarrow> map_of (regular m) k = map_of m k"
  by (induction m) (auto simp: regular_def)

lemma lookup_regular: "lookup (regular m) k = lookup m k"
  by (simp add: lookup_def map_of_regular)

lemma regular_writes:
  "regular (writes m ps) = foldl (\<lambda>m (k, v). AList.update k v m) (regular m) (regular ps)"
proof (induction ps arbitrary: m)
  case Nil
  show ?case by (simp add: writes_def regular_def)
next
  case (Cons p ps)
  obtain k v where p: "p = (k, v)" by (cases p)
  have "regular (writes m (p # ps)) = regular (writes (assign k v m) ps)"
    by (simp add: writes_def p)
  also have "\<dots> = foldl (\<lambda>m (k, v). AList.update k v m) (regular (assign k v m)) (regular ps)"
    by (rule Cons)
  also have "\<dots> = foldl (\<lambda>m (k, v). AList.update k v m) (regular m) (regular (p # ps))"
    by (simp add: regular_assign p) (simp add: regular_def)
  finally show ?case .
qed

lemma nans_writes: "nans (writes m ps) = nans m @ nans ps"
proof (induction ps arbitrary: m)
  case Nil
  show ?case by (simp add: writes_def nans_def)
next
  case (Cons p ps)
  obtain k v where p: "p = (k, v)" by (cases p)
  have "nans (writes m (p # ps)) = nans (writes (assign k v m) ps)"
    by (simp add: writes_def p)
  also have "\<dots> = nans (assign k v m) @ nans ps"
    by (rule Cons)
  also have "\<dots> = nans m @ nans (p # ps)"
    by (simp add: nans_assign p) (simp add: nans_def)
  finally show ?case .
qed

text \<open>Writing a list of pairs into an association list, one after the other.\<close>

lemma map_of_updates: "map_of (foldl (\<lambda>m (k, v). AList.update k v m) bs ps) = map_of bs ++ map_of (rev ps)"
proof (induction ps arbitrary: bs)
  case Nil
  show ?case by simp
next
  case (Cons p ps)
  obtain k v where p: "p = (k, v)" by (cases p)
  have "map_of (foldl (\<lambda>m (k, v). AList.update k v m) bs (p # ps))
      = map_of (AList.update k v bs) ++ map_of (rev ps)"
    using Cons [of "AList.update k v bs"] by (simp add: p)
  also have "\<dots> = map_of bs ++ map_of (rev (p # ps))"
    by (simp add: p update_conv' map_add_upd_left fun_eq_iff map_add_def split: option.splits)
  finally show ?case .
qed

lemma distinct_updates:
  "distinct (map fst bs) \<Longrightarrow> distinct (map fst (foldl (\<lambda>m (k, v). AList.update k v m) bs ps))"
  by (induction ps arbitrary: bs) (auto simp: distinct_update)

text \<open>The keys other than NaN of a bucket map are pairwise different.\<close>

lemma distinct_regular_assign:
  "distinct (map fst (regular m)) \<Longrightarrow> distinct (map fst (regular (assign k v m)))"
  by (simp add: regular_assign distinct_update)

lemma distinct_regular_writes:
  "distinct (map fst (regular m)) \<Longrightarrow> distinct (map fst (regular (writes m ps)))"
  by (simp add: regular_writes distinct_updates)

lemma mset_update:
  "distinct (map fst m) \<Longrightarrow>
     mset (AList.update k v m) = filter_mset (\<lambda>p. fst p \<noteq> k) (mset m) + {#(k, v)#}"
proof (induction m)
  case Nil
  show ?case by simp
next
  case (Cons p m)
  obtain a b where p: "p = (a, b)" by (cases p)
  show ?case
  proof (cases "a = k")
    case True
    then have "k \<notin> fst ` set m"
      using Cons.prems by (simp add: p)
    then have "filter_mset (\<lambda>p. fst p \<noteq> k) (mset m) = mset m"
      by (auto simp: filter_mset_eq_conv)
    then show ?thesis
      using True by (simp add: p)
  next
    case False
    then show ?thesis
      using Cons by (simp add: p)
  qed
qed

lemma mset_assign:
  assumes "distinct (map fst (regular m))"
  shows "mset (assign k v m) =
     (if k = NaN then mset m + {#(k, v)#}
      else filter_mset (\<lambda>p. fst p \<noteq> k) (mset m) + {#(k, v)#})"
proof (cases "k = NaN")
  case True
  then show ?thesis by (simp add: assign_def)
next
  case False
  have "mset (assign k v m) = mset (regular (assign k v m)) + mset (nans (assign k v m))"
    by (rule mset_parts)
  also have "\<dots> = filter_mset (\<lambda>p. fst p \<noteq> k) (mset (regular m)) + {#(k, v)#} + mset (nans m)"
    using False by (simp add: regular_assign nans_assign mset_update [OF assms])
  also have "mset (nans m) = filter_mset (\<lambda>p. fst p \<noteq> k) (mset (nans m))"
  proof -
    have "filter (\<lambda>p. fst p \<noteq> k) (nans m) = nans m"
      unfolding nans_def filter_filter
      by (rule filter_cong [OF refl]) (use False in auto)
    then show ?thesis
      by (metis mset_filter)
  qed
  finally show ?thesis
    using False by (simp add: mset_parts [of m])
qed

lemma mset_assign_cong:
  assumes "distinct (map fst (regular m))" and "distinct (map fst (regular m'))"
    and "mset m = mset m'"
  shows "mset (assign k v m) = mset (assign k v m')"
  by (simp only: mset_assign [OF assms(1)] mset_assign [OF assms(2)] assms(3))

lemma mset_writes_cong:
  "distinct (map fst (regular m)) \<Longrightarrow> distinct (map fst (regular m')) \<Longrightarrow> mset m = mset m' \<Longrightarrow>
     mset (writes m ps) = mset (writes m' ps)"
proof (induction ps arbitrary: m m')
  case Nil
  then show ?case by (simp add: writes_def)
next
  case (Cons p ps)
  obtain k v where p: "p = (k, v)" by (cases p)
  have "mset (writes (assign k v m) ps) = mset (writes (assign k v m') ps)"
    using Cons.prems
    by (intro Cons.IH distinct_regular_assign mset_assign_cong)
  then show ?case
    by (simp add: writes_def p)
qed

lemma regular_cong:
  assumes "mset m = mset m'"
  shows "mset (regular m) = mset (regular m')"
  using assms by (simp add: regular_def)

lemma lookup_cong:
  assumes "distinct (map fst (regular m))" and "distinct (map fst (regular m'))"
    and "mset m = mset m'"
  shows "lookup m k = lookup m' k"
proof -
  have "set (regular m) = set (regular m')"
    using regular_cong [OF assms(3)] by (rule mset_eq_setD)
  then have "map_of (regular m) = map_of (regular m')"
    using assms(1,2) by (simp add: map_of_inject_set)
  then have "lookup (regular m) k = lookup (regular m') k"
    by (simp add: lookup_def)
  then show ?thesis
    by (simp only: lookup_regular)
qed

subsection \<open>The loops of the builders as lists of assignments\<close>

lemma writes_Cons: "writes m ((k, v) # ps) = writes (assign k v m) ps"
  by (simp add: writes_def)

lemma collect_parses:
  "parsesV3 pf cs \<Longrightarrow> histogramV3_collect pf cs bs = (writes bs (rttPairsV3 pf cs), None)"
proof (induction cs arbitrary: bs)
  case Nil
  show ?case by (simp add: rttPairsV3_def writes_def)
next
  case (Cons s cs)
  have p: "parsesV3 pf cs"
    using Cons.prems by (simp add: parsesV3_def)
  show ?case
  proof (cases "HasPrefix (CounterV3.Name s) qryRTT")
    case False
    then have "rttPairsV3 pf (s # cs) = rttPairsV3 pf cs"
      by (simp add: rttPairsV3_def)
    then show ?thesis
      using Cons.IH [OF p, of bs] False by simp
  next
    case True
    then obtain bnd where bnd: "rttBound pf (CounterV3.Name s) = Inr bnd"
      using Cons.prems by (auto simp: parsesV3_def)
    have "rttPairsV3 pf (s # cs) = (div1000 bnd, CounterV3.Counter s) # rttPairsV3 pf cs"
      using True bnd by (simp add: rttPairsV3_def)
    then show ?thesis
      using Cons.IH [OF p, of "assign (div1000 bnd) (CounterV3.Counter s) bs"] True bnd
      by (simp add: writes_Cons)
  qed
qed

lemma collect_error:
  "\<not> parsesV3 pf cs \<Longrightarrow> snd (histogramV3_collect pf cs bs) \<noteq> None"
  by (induction cs arbitrary: bs) (auto simp: parsesV3_def split: sum.splits)

lemma lookup_assign_other:
  assumes "k' \<noteq> k \<or> k' = NaN"
  shows "lookup (assign k v b) k' = lookup b k'"
proof (cases "k' = NaN")
  case True
  then show ?thesis by (simp add: lookup_def)
next
  case False
  then have "k' \<noteq> k"
    using assms by simp
  then show ?thesis
    using False
    by (auto simp: lookup_def assign_def update_conv' map_add_def split: option.splits)
qed

lemma accumulate_writes:
  "distinct (filter (\<lambda>k. k \<noteq> NaN) ks) \<Longrightarrow>
     histogramV3_accumulate ks b c
       = (writes b (zip ks (runningSums c (map (lookup b) ks))),
          last (c # runningSums c (map (lookup b) ks)))"
proof (induction ks arbitrary: b c)
  case Nil
  show ?case by (simp add: writes_def)
next
  case (Cons k ks)
  have m: "map (lookup (assign k (c + lookup b k) b)) ks = map (lookup b) ks"
  proof (rule map_cong [OF refl])
    fix x
    assume "x \<in> set ks"
    then have "x \<noteq> k \<or> x = NaN"
      using Cons.prems by (cases "k = NaN") auto
    then show "lookup (assign k (c + lookup b k) b) x = lookup b x"
      by (rule lookup_assign_other)
  qed
  have d: "distinct (filter (\<lambda>k. k \<noteq> NaN) ks)"
    using Cons.prems by (simp split: if_splits)
  note ih = Cons.IH [OF d, of "assign k (c + lookup b k) b" "c + lookup b k", unfolded m]
  show ?case
    by (simp add: ih writes_Cons)
qed

lemma histogramV3_parses:
  assumes "parsesV3 pf cs"
  shows "histogramV3 pf cs =
     (fst (histogramV3_accumulate (sort (map fst (writes [] (rttPairsV3 pf cs))))
             (writes [] (rttPairsV3 pf cs)) 0),
      snd (histogramV3_accumulate (sort (map fst (writes [] (rttPairsV3 pf cs))))
             (writes [] (rttPairsV3 pf cs)) 0),
      None)"
  by (simp add: histogramV3_def collect_parses [OF assms] Let_def split_beta)

lemma histogramV3_error:
  assumes "\<not> parsesV3 pf cs"
  shows "snd (snd (histogramV3 pf cs)) \<noteq> None \<and> fst (snd (histogramV3 pf cs)) = 0"
  using collect_error [OF assms, of "[]"]
  by (auto simp: histogramV3_def split: prod.splits option.splits)

lemma histogramV3_no_error:
  "(snd (snd (histogramV3 pf cs)) = None) = parsesV3 pf cs"
proof (cases "parsesV3 pf cs")
  case True
  then show ?thesis
    by (simp add: histogramV3_parses)
next
  case False
  then show ?thesis
    using histogramV3_error [of pf cs] by simp
qed

text \<open>The keys other than NaN that the last loop of \<open>histogramV3\<close> runs over are distinct.\<close>

lemma distinct_sorted_keys:
  assumes "distinct (map fst (regular m))"
  shows "distinct (filter (\<lambda>k. k \<noteq> NaN) (sort (map fst m)))"
proof -
  have "mset (filter (\<lambda>k. k \<noteq> NaN) (sort (map fst m))) = mset (map fst (regular m))"
    by (simp add: regular_def filter_map comp_def mset_filter flip: mset_map)
       (simp add: image_mset_filter_mset_swap [symmetric] comp_def)
  then show ?thesis
    using assms by (metis mset_eq_imp_distinct_iff)
qed

subsection \<open>The order of the counters\<close>

lemma div1000_inj: "div1000 a = div1000 b \<Longrightarrow> a = b"
  by (cases a; cases b) simp_all

lemma div1000_NaN: "(div1000 b = NaN) = (b = NaN)"
  by (cases b) simp_all

lemma rttPairsV3_mem:
  "(k, v) \<in> set (rttPairsV3 pf cs) =
     (\<exists>s \<in> set cs. HasPrefix (CounterV3.Name s) qryRTT
        \<and> (\<exists>b. rttBound pf (CounterV3.Name s) = Inr b \<and> k = div1000 b) \<and> v = CounterV3.Counter s)"
proof -
  have "((k, v) \<in> set (if HasPrefix (CounterV3.Name s) qryRTT then
                          (case rttBound pf (CounterV3.Name s) of
                             Inl err \<Rightarrow> []
                           | Inr b \<Rightarrow> [(div1000 b, CounterV3.Counter s)])
                        else []))
      = (HasPrefix (CounterV3.Name s) qryRTT
          \<and> (\<exists>b. rttBound pf (CounterV3.Name s) = Inr b \<and> k = div1000 b)
          \<and> v = CounterV3.Counter s)" for s
    by (cases "HasPrefix (CounterV3.Name s) qryRTT"; cases "rttBound pf (CounterV3.Name s)")
       simp_all
  then show ?thesis
    unfolding rttPairsV3_def set_concat set_map by blast
qed

lemma mset_concat_map_cong:
  assumes "mset xs = mset ys"
  shows "mset (concat (map f xs)) = mset (concat (map f ys))"
proof -
  have "mset (concat (map f zs)) = sum_mset (image_mset (\<lambda>x. mset (f x)) (mset zs))" for zs
    by (induction zs) simp_all
  then show ?thesis
    using assms by simp
qed

lemma mset_rttPairsV3:
  "mset xs = mset ys \<Longrightarrow> mset (rttPairsV3 pf xs) = mset (rttPairsV3 pf ys)"
  unfolding rttPairsV3_def by (rule mset_concat_map_cong)

text \<open>A list of pairs in which a key has one value only.\<close>

lemma map_of_functional:
  assumes "\<And>k v v'. (k, v) \<in> set ps \<Longrightarrow> (k, v') \<in> set ps \<Longrightarrow> v = v'"
  shows "(map_of ps k = Some v) = ((k, v) \<in> set ps)"
proof
  assume "map_of ps k = Some v"
  then show "(k, v) \<in> set ps" by (rule map_of_SomeD)
next
  assume m: "(k, v) \<in> set ps"
  then obtain v' where v': "map_of ps k = Some v'"
    using weak_map_of_SomeI by fastforce
  then have "(k, v') \<in> set ps" by (rule map_of_SomeD)
  with m assms have "v = v'" by blast
  with v' show "map_of ps k = Some v" by simp
qed

lemma set_updates_functional:
  fixes ps :: "('k \<times> 'w) list"
  assumes "\<And>k v v'. (k, v) \<in> set ps \<Longrightarrow> (k, v') \<in> set ps \<Longrightarrow> v = v'"
  shows "set (foldl (\<lambda>m (k, v). AList.update k v m) [] ps) = set ps"
proof -
  let ?a = "foldl (\<lambda>m (k, v). AList.update k v m) [] ps"
  have f: "(k, v) \<in> set (rev ps) \<Longrightarrow> (k, v') \<in> set (rev ps) \<Longrightarrow> v = v'" for k v v'
    using assms by simp
  have d: "distinct (map fst ?a)"
    by (simp add: distinct_updates)
  have "map_of ?a = map_of (rev ps)"
    by (simp add: map_of_updates)
  then have m: "(map_of ?a k = Some v) = ((k, v) \<in> set ps)" for k v
    using map_of_functional [of "rev ps" k v, OF f] by simp
  show ?thesis
  proof (rule set_eqI)
    fix p :: "'k \<times> 'w"
    obtain k v where p: "p = (k, v)" by (cases p)
    have "((k, v) \<in> set ?a) = (map_of ?a k = Some v)"
      by (rule map_of_eq_Some_iff [OF d, symmetric])
    then show "(p \<in> set ?a) = (p \<in> set ps)"
      by (simp only: p m)
  qed
qed

lemma mset_writes_functional:
  assumes "\<And>k v v'. k \<noteq> NaN \<Longrightarrow> (k, v) \<in> set ps \<Longrightarrow> (k, v') \<in> set ps \<Longrightarrow> v = v'"
    and "mset qs = mset ps"
  shows "mset (writes [] qs) = mset (writes [] ps)"
proof -
  have s: "set qs = set ps"
    using assms(2) by (rule mset_eq_setD)
  have fp: "(k, v) \<in> set (regular ps) \<Longrightarrow> (k, v') \<in> set (regular ps) \<Longrightarrow> v = v'" for k v v'
    using assms(1) by (auto simp: regular_def)
  have fq: "(k, v) \<in> set (regular qs) \<Longrightarrow> (k, v') \<in> set (regular qs) \<Longrightarrow> v = v'" for k v v'
    using assms(1) s by (auto simp: regular_def)
  have e: "regular [] = []"
    by (simp add: regular_def)
  have "set (regular (writes [] ps)) = set (regular ps)"
    by (simp only: regular_writes e set_updates_functional [OF fp])
  moreover have "set (regular (writes [] qs)) = set (regular qs)"
    by (simp only: regular_writes e set_updates_functional [OF fq])
  moreover have "set (regular qs) = set (regular ps)"
    using s by (simp add: regular_def)
  ultimately have "set (regular (writes [] qs)) = set (regular (writes [] ps))"
    by simp
  moreover have "distinct (regular (writes [] qs))" "distinct (regular (writes [] ps))"
    using distinct_regular_writes [of "[]" qs] distinct_regular_writes [of "[]" ps]
    by (simp_all add: e distinct_map)
  ultimately have r: "mset (regular (writes [] qs)) = mset (regular (writes [] ps))"
    by (simp only: set_eq_iff_mset_eq_distinct)
  have "mset (nans qs) = mset (nans ps)"
    using assms(2) by (simp add: nans_def)
  then have n: "mset (nans (writes [] qs)) = mset (nans (writes [] ps))"
    by (simp add: nans_writes)
  show ?thesis
    by (simp only: mset_parts [of "writes [] qs"] mset_parts [of "writes [] ps"] r n)
qed

lemma accumulate_cong:
  assumes "distinct (map fst (regular m))" and "distinct (map fst (regular m'))"
    and "mset m = mset m'"
  shows "mset (fst (histogramV3_accumulate (sort (map fst m)) m 0))
           = mset (fst (histogramV3_accumulate (sort (map fst m')) m' 0))"
    and "snd (histogramV3_accumulate (sort (map fst m)) m 0)
           = snd (histogramV3_accumulate (sort (map fst m')) m' 0)"
proof -
  have "mset (map fst m) = mset (map fst m')"
    using assms(3) by simp
  then have k: "sort (map fst m) = sort (map fst m')"
    by (metis sorted_list_of_multiset_mset)
  have l: "map (lookup m) (sort (map fst m')) = map (lookup m') (sort (map fst m'))"
    by (rule map_cong [OF refl]) (rule lookup_cong [OF assms])
  have a: "histogramV3_accumulate (sort (map fst m')) m 0
      = (writes m (zip (sort (map fst m')) (runningSums 0 (map (lookup m') (sort (map fst m'))))),
         last (0 # runningSums 0 (map (lookup m') (sort (map fst m')))))"
    using accumulate_writes [OF distinct_sorted_keys [OF assms(1)], of m 0]
    by (simp only: k l)
  have a': "histogramV3_accumulate (sort (map fst m')) m' 0
      = (writes m' (zip (sort (map fst m')) (runningSums 0 (map (lookup m') (sort (map fst m'))))),
         last (0 # runningSums 0 (map (lookup m') (sort (map fst m')))))"
    by (rule accumulate_writes [OF distinct_sorted_keys [OF assms(2)]])
  show "mset (fst (histogramV3_accumulate (sort (map fst m)) m 0))
           = mset (fst (histogramV3_accumulate (sort (map fst m')) m' 0))"
    by (simp only: k a a' fst_conv mset_writes_cong [OF assms])
  show "snd (histogramV3_accumulate (sort (map fst m)) m 0)
           = snd (histogramV3_accumulate (sort (map fst m')) m' 0)"
    by (simp only: k a a' snd_conv)
qed

text \<open>
  C4 (as amended). Let any two RTT counters of a list that have the same bound, other
  than NaN, have the same count. Then for every permutation of the list: a name fails to
  parse in the one order exactly when it does in the other, which is when some RTT
  counter has a name without a readable bound, and \<open>histogramV3\<close> then returns the total
  count 0 in both orders; otherwise it returns in both orders the same total count and
  bucket maps with the same entries, which give the same value at every key.
\<close>

theorem histogramV3_order_independent:
  assumes "mset xs = mset ys"
    and "\<forall>s \<in> set xs. \<forall>t \<in> set xs.
           HasPrefix (CounterV3.Name s) qryRTT \<and> HasPrefix (CounterV3.Name t) qryRTT
           \<and> (\<exists>b. b \<noteq> NaN \<and> rttBound pf (CounterV3.Name s) = Inr b
                  \<and> rttBound pf (CounterV3.Name t) = Inr b)
           \<longrightarrow> CounterV3.Counter s = CounterV3.Counter t"
  shows "(snd (snd (histogramV3 pf xs)) = None) = (snd (snd (histogramV3 pf ys)) = None)
    \<and> (snd (snd (histogramV3 pf xs)) = None)
        = (\<forall>s \<in> set xs. HasPrefix (CounterV3.Name s) qryRTT \<longrightarrow>
             (\<exists>b. rttBound pf (CounterV3.Name s) = Inr b))
    \<and> (snd (snd (histogramV3 pf xs)) \<noteq> None \<longrightarrow>
         fst (snd (histogramV3 pf xs)) = 0 \<and> fst (snd (histogramV3 pf ys)) = 0)
    \<and> (snd (snd (histogramV3 pf xs)) = None \<longrightarrow>
         mset (fst (histogramV3 pf xs)) = mset (fst (histogramV3 pf ys))
         \<and> (\<forall>k. lookup (fst (histogramV3 pf xs)) k = lookup (fst (histogramV3 pf ys)) k)
         \<and> fst (snd (histogramV3 pf xs)) = fst (snd (histogramV3 pf ys)))"
proof -
  have s: "set xs = set ys"
    using assms(1) by (rule mset_eq_setD)
  then have p: "parsesV3 pf ys = parsesV3 pf xs"
    by (simp add: parsesV3_def)
  have 1: "(snd (snd (histogramV3 pf xs)) = None) = (snd (snd (histogramV3 pf ys)) = None)"
    by (simp only: histogramV3_no_error p)
  have 2: "(snd (snd (histogramV3 pf xs)) = None)
        = (\<forall>s \<in> set xs. HasPrefix (CounterV3.Name s) qryRTT \<longrightarrow>
             (\<exists>b. rttBound pf (CounterV3.Name s) = Inr b))"
    by (simp only: histogramV3_no_error parsesV3_def)
  have 3: "fst (snd (histogramV3 pf xs)) = 0 \<and> fst (snd (histogramV3 pf ys)) = 0"
    if "snd (snd (histogramV3 pf xs)) \<noteq> None"
    using that histogramV3_error [of pf xs] histogramV3_error [of pf ys]
    by (simp add: histogramV3_no_error p)
  have 4: "mset (fst (histogramV3 pf xs)) = mset (fst (histogramV3 pf ys))
         \<and> (\<forall>k. lookup (fst (histogramV3 pf xs)) k = lookup (fst (histogramV3 pf ys)) k)
         \<and> fst (snd (histogramV3 pf xs)) = fst (snd (histogramV3 pf ys))"
    if "snd (snd (histogramV3 pf xs)) = None"
  proof -
    have px: "parsesV3 pf xs"
      using that by (simp only: histogramV3_no_error)
    then have py: "parsesV3 pf ys"
      by (simp only: p)
    let ?mx = "writes [] (rttPairsV3 pf xs)"
    let ?my = "writes [] (rttPairsV3 pf ys)"
    have f: "v = v'"
      if "k \<noteq> NaN" "(k, v) \<in> set (rttPairsV3 pf xs)" "(k, v') \<in> set (rttPairsV3 pf xs)"
      for k v v'
    proof -
      from that(2) obtain s b where s: "s \<in> set xs" "HasPrefix (CounterV3.Name s) qryRTT"
        "rttBound pf (CounterV3.Name s) = Inr b" "k = div1000 b" "v = CounterV3.Counter s"
        by (auto simp: rttPairsV3_mem)
      from that(3) obtain t b' where t: "t \<in> set xs" "HasPrefix (CounterV3.Name t) qryRTT"
        "rttBound pf (CounterV3.Name t) = Inr b'" "k = div1000 b'" "v' = CounterV3.Counter t"
        by (auto simp: rttPairsV3_mem)
      have "b' = b"
        using s(4) t(4) div1000_inj by simp
      moreover have "b \<noteq> NaN"
        using that(1) s(4) by (simp add: div1000_NaN)
      ultimately have "CounterV3.Counter s = CounterV3.Counter t"
        using assms(2) s(1,2,3) t(1,2,3) by blast
      then show ?thesis
        by (simp add: s(5) t(5))
    qed
    have m: "mset ?mx = mset ?my"
      by (rule mset_writes_functional [OF f, symmetric])
         (simp_all add: mset_rttPairsV3 [OF assms(1)])
    have e: "regular [] = []"
      by (simp add: regular_def)
    have d: "distinct (map fst (regular ?mx))" "distinct (map fst (regular ?my))"
      using distinct_regular_writes [of "[]"] by (simp_all add: e)
    note a = accumulate_cong [OF d m]
    have hx: "histogramV3 pf xs =
        (fst (histogramV3_accumulate (sort (map fst ?mx)) ?mx 0),
         snd (histogramV3_accumulate (sort (map fst ?mx)) ?mx 0), None)"
      by (rule histogramV3_parses [OF px])
    have hy: "histogramV3 pf ys =
        (fst (histogramV3_accumulate (sort (map fst ?my)) ?my 0),
         snd (histogramV3_accumulate (sort (map fst ?my)) ?my 0), None)"
      by (rule histogramV3_parses [OF py])
    have r: "mset (fst (histogramV3 pf xs)) = mset (fst (histogramV3 pf ys))"
      by (simp only: hx hy fst_conv a(1))
    have c: "fst (snd (histogramV3 pf xs)) = fst (snd (histogramV3 pf ys))"
      by (simp only: hx hy fst_conv snd_conv a(2))
    have dx: "distinct (map fst (regular (fst (histogramV3 pf xs))))"
      by (simp only: hx fst_conv accumulate_writes [OF distinct_sorted_keys [OF d(1)]]
          distinct_regular_writes [OF d(1)])
    have dy: "distinct (map fst (regular (fst (histogramV3 pf ys))))"
      by (simp only: hy fst_conv accumulate_writes [OF distinct_sorted_keys [OF d(2)]]
          distinct_regular_writes [OF d(2)])
    have "lookup (fst (histogramV3 pf xs)) k = lookup (fst (histogramV3 pf ys)) k" for k
      by (rule lookup_cong [OF dx dy r])
    then show ?thesis
      using r c by simp
  qed
  show ?thesis
    using 1 2 3 4 by blast
qed

theorem histogramV3_order_independent_witness:
  "mset [\<lparr>CounterV3.Name = ''QryRTT100'', Counter = 5\<rparr>, \<lparr>CounterV3.Name = ''QryRTTNaN'', Counter = 4\<rparr>,
         \<lparr>CounterV3.Name = ''QryRTT10'', Counter = 3\<rparr>, \<lparr>CounterV3.Name = ''QryRTT1600+'', Counter = 2\<rparr>]
     = mset [\<lparr>CounterV3.Name = ''QryRTT10'', Counter = 3\<rparr>, \<lparr>CounterV3.Name = ''QryRTT1600+'', Counter = 2\<rparr>,
             \<lparr>CounterV3.Name = ''QryRTTNaN'', Counter = 4\<rparr>, \<lparr>CounterV3.Name = ''QryRTT100'', Counter = 5\<rparr>]
   \<and> histogramV3 parseDecimal
        [\<lparr>CounterV3.Name = ''QryRTT100'', Counter = 5\<rparr>, \<lparr>CounterV3.Name = ''QryRTTNaN'', Counter = 4\<rparr>,
         \<lparr>CounterV3.Name = ''QryRTT10'', Counter = 3\<rparr>, \<lparr>CounterV3.Name = ''QryRTT1600+'', Counter = 2\<rparr>]
       = ([(Finite (1/10), 8), (NaN, 4), (Finite (1/100), 3), (PosInf, 10), (NaN, 0)], 10, None)
   \<and> mset (fst (histogramV3 parseDecimal
        [\<lparr>CounterV3.Name = ''QryRTT10'', Counter = 3\<rparr>, \<lparr>CounterV3.Name = ''QryRTT1600+'', Counter = 2\<rparr>,
         \<lparr>CounterV3.Name = ''QryRTTNaN'', Counter = 4\<rparr>, \<lparr>CounterV3.Name = ''QryRTT100'', Counter = 5\<rparr>]))
       = mset [(Finite (1/10), 8), (NaN, 4), (Finite (1/100), 3), (PosInf, 10), (NaN, 0)]
   \<and> fst (snd (histogramV3 parseDecimal
        [\<lparr>CounterV3.Name = ''QryRTT10'', Counter = 3\<rparr>, \<lparr>CounterV3.Name = ''QryRTT1600+'', Counter = 2\<rparr>,
         \<lparr>CounterV3.Name = ''QryRTTNaN'', Counter = 4\<rparr>, \<lparr>CounterV3.Name = ''QryRTT100'', Counter = 5\<rparr>])) = 10
   \<and> snd (snd (histogramV3 parseDecimal
        [\<lparr>CounterV3.Name = ''QryRTT10'', Counter = 3\<rparr>, \<lparr>CounterV3.Name = ''QryRTTx'', Counter = 1\<rparr>]))
       = Some (ParseRTTError ''x'')
   \<and> snd (snd (histogramV3 parseDecimal
        [\<lparr>CounterV3.Name = ''QryRTTx'', Counter = 1\<rparr>, \<lparr>CounterV3.Name = ''QryRTT10'', Counter = 3\<rparr>]))
       \<noteq> None
   \<and> fst (snd (histogramV3 parseDecimal
        [\<lparr>CounterV3.Name = ''QryRTTx'', Counter = 1\<rparr>, \<lparr>CounterV3.Name = ''QryRTT10'', Counter = 3\<rparr>])) = 0"
proof -
  let ?xs = "[\<lparr>CounterV3.Name = ''QryRTT100'', Counter = 5\<rparr>, \<lparr>CounterV3.Name = ''QryRTTNaN'', Counter = 4\<rparr>,
         \<lparr>CounterV3.Name = ''QryRTT10'', Counter = 3\<rparr>, \<lparr>CounterV3.Name = ''QryRTT1600+'', Counter = 2\<rparr>]"
  let ?ys = "[\<lparr>CounterV3.Name = ''QryRTT10'', Counter = 3\<rparr>, \<lparr>CounterV3.Name = ''QryRTT1600+'', Counter = 2\<rparr>,
             \<lparr>CounterV3.Name = ''QryRTTNaN'', Counter = 4\<rparr>, \<lparr>CounterV3.Name = ''QryRTT100'', Counter = 5\<rparr>]"
  let ?us = "[\<lparr>CounterV3.Name = ''QryRTT10'', Counter = 3\<rparr>, \<lparr>CounterV3.Name = ''QryRTTx'', Counter = 1\<rparr>]"
  let ?vs = "[\<lparr>CounterV3.Name = ''QryRTTx'', Counter = 1\<rparr>, \<lparr>CounterV3.Name = ''QryRTT10'', Counter = 3\<rparr>]"
  have m: "mset ?xs = mset ?ys"
    by simp
  have b: "rttBound parseDecimal ''QryRTT100'' = Inr (Finite 100)"
    "rttBound parseDecimal ''QryRTT10'' = Inr (Finite 10)"
    "rttBound parseDecimal ''QryRTTNaN'' = Inr NaN"
    "rttBound parseDecimal ''QryRTT1600+'' = Inr PosInf"
    "rttBound parseDecimal ''QryRTTx'' = Inl (ParseRTTError ''x'')"
    by (simp_all add: rtt_eval)
  have f: "\<forall>s \<in> set ?xs. \<forall>t \<in> set ?xs.
           HasPrefix (CounterV3.Name s) qryRTT \<and> HasPrefix (CounterV3.Name t) qryRTT
           \<and> (\<exists>b. b \<noteq> NaN \<and> rttBound parseDecimal (CounterV3.Name s) = Inr b
                  \<and> rttBound parseDecimal (CounterV3.Name t) = Inr b)
           \<longrightarrow> CounterV3.Counter s = CounterV3.Counter t"
    by (simp add: b)
  have x: "histogramV3 parseDecimal ?xs
      = ([(Finite (1/10), 8), (NaN, 4), (Finite (1/100), 3), (PosInf, 10), (NaN, 0)], 10, None)"
    by (simp add: rtt_eval less_float64_def)
  have m2: "mset ?us = mset ?vs"
    by simp
  have f2: "\<forall>s \<in> set ?us. \<forall>t \<in> set ?us.
           HasPrefix (CounterV3.Name s) qryRTT \<and> HasPrefix (CounterV3.Name t) qryRTT
           \<and> (\<exists>b. b \<noteq> NaN \<and> rttBound parseDecimal (CounterV3.Name s) = Inr b
                  \<and> rttBound parseDecimal (CounterV3.Name t) = Inr b)
           \<longrightarrow> CounterV3.Counter s = CounterV3.Counter t"
    by (simp add: b)
  have u: "snd (snd (histogramV3 parseDecimal ?us)) = Some (ParseRTTError ''x'')"
    by (simp add: rtt_eval)
  show ?thesis
    using histogramV3_order_independent [OF m f] histogramV3_order_independent [OF m2 f2] m x u
    by simp
qed

text \<open>
  C4 as stated fails: \<open>histogramV3\<close> keeps for each bound the count of the last counter
  with that bound. The names \<open>QryRTT800+\<close> and \<open>QryRTT1600+\<close> both end with \<open>+\<close> and so
  both have the bound \<open>+Inf\<close>; the two orders of these two counters give different
  buckets and different total counts.
\<close>

theorem histogramV3_order_counterexample:
  "mset [\<lparr>CounterV3.Name = ''QryRTT800+'', Counter = 1\<rparr>, \<lparr>CounterV3.Name = ''QryRTT1600+'', Counter = 2\<rparr>]
     = mset [\<lparr>CounterV3.Name = ''QryRTT1600+'', Counter = 2\<rparr>, \<lparr>CounterV3.Name = ''QryRTT800+'', Counter = 1\<rparr>]
   \<and> histogramV3 parseDecimal
        [\<lparr>CounterV3.Name = ''QryRTT800+'', Counter = 1\<rparr>, \<lparr>CounterV3.Name = ''QryRTT1600+'', Counter = 2\<rparr>]
       = ([(PosInf, 2)], 2, None)
   \<and> histogramV3 parseDecimal
        [\<lparr>CounterV3.Name = ''QryRTT1600+'', Counter = 2\<rparr>, \<lparr>CounterV3.Name = ''QryRTT800+'', Counter = 1\<rparr>]
       = ([(PosInf, 1)], 1, None)"
  by (simp add: rtt_eval)

subsection \<open>Running sums without overflow\<close>

lemma length_runningSums: "length (runningSums c vs) = length vs"
  by (induction vs arbitrary: c) simp_all

lemma add_no_overflow:
  fixes c v :: uint64
  assumes "unat c + unat v < 2 ^ 64"
  shows "unat (c + v) = unat c + unat v" and "c \<le> c + v"
proof -
  show u: "unat (c + v) = unat c + unat v"
    using assms unat_add_lem [of c v] by simp
  show "c \<le> c + v"
    by (simp add: word_le_nat_alt u)
qed

lemma runningSums_lower:
  "unat c + sum_list (map unat vs) < 2 ^ 64 \<Longrightarrow> y \<in> set (runningSums c vs) \<Longrightarrow> c \<le> y"
proof (induction vs arbitrary: c)
  case Nil
  then show ?case by simp
next
  case (Cons v vs)
  have s: "unat c + unat v < 2 ^ 64"
    using Cons.prems(1) by simp
  have le: "c \<le> c + v"
    by (rule add_no_overflow(2) [OF s])
  have n: "unat (c + v) + sum_list (map unat vs) < 2 ^ 64"
    using Cons.prems(1) add_no_overflow(1) [OF s] by simp
  show ?case
  proof (cases "y = c + v")
    case True
    then show ?thesis using le by simp
  next
    case False
    then have "y \<in> set (runningSums (c + v) vs)"
      using Cons.prems(2) by simp
    then have "c + v \<le> y"
      by (rule Cons.IH [OF n])
    with le show ?thesis by simp
  qed
qed

lemma sorted_runningSums:
  "unat c + sum_list (map unat vs) < 2 ^ 64 \<Longrightarrow> sorted (c # runningSums c vs)"
proof (induction vs arbitrary: c)
  case Nil
  show ?case by simp
next
  case (Cons v vs)
  have s: "unat c + unat v < 2 ^ 64"
    using Cons.prems by simp
  have n: "unat (c + v) + sum_list (map unat vs) < 2 ^ 64"
    using Cons.prems add_no_overflow(1) [OF s] by simp
  have "sorted ((c + v) # runningSums (c + v) vs)"
    by (rule Cons.IH [OF n])
  moreover have "c \<le> y" if "y \<in> set (runningSums c (v # vs))" for y
    using runningSums_lower [OF Cons.prems that] .
  ultimately show ?case
    by simp
qed

lemma sorted_le_last: "sorted xs \<Longrightarrow> x \<in> set xs \<Longrightarrow> x \<le> last xs"
  by (induction xs) (auto split: if_splits)

subsection \<open>Bucket maps without a NaN key\<close>

lemma writes_updates:
  "NaN \<notin> fst ` set ps \<Longrightarrow> writes m ps = foldl (\<lambda>m (k, v). AList.update k v m) m ps"
proof (induction ps arbitrary: m)
  case Nil
  show ?case by (simp add: writes_def)
next
  case (Cons p ps)
  obtain k v where p: "p = (k, v)" by (cases p)
  have "k \<noteq> NaN" "NaN \<notin> fst ` set ps"
    using Cons.prems by (auto simp: p)
  then show ?case
    using Cons.IH [of "assign k v m"] by (simp add: p writes_Cons assign_def)
qed

lemma keys_updates:
  "fst ` set (foldl (\<lambda>m (k, v). AList.update k v m) bs ps) = fst ` set bs \<union> fst ` set ps"
proof (induction ps arbitrary: bs)
  case Nil
  show ?case by simp
next
  case (Cons p ps)
  obtain k v where p: "p = (k, v)" by (cases p)
  have "fst ` set (foldl (\<lambda>m (k, v). AList.update k v m) (AList.update k v bs) ps)
      = fst ` set (AList.update k v bs) \<union> fst ` set ps"
    by (rule Cons)
  also have "\<dots> = fst ` set bs \<union> fst ` set (p # ps)"
    by (simp add: dom_update p)
  finally show ?case
    by (simp add: p)
qed

lemma update_new: "k \<notin> fst ` set b \<Longrightarrow> AList.update k v b = b @ [(k, v)]"
  by (induction b) auto

lemma updates_new:
  "distinct (map fst ps) \<Longrightarrow> fst ` set b \<inter> fst ` set ps = {} \<Longrightarrow>
     foldl (\<lambda>m (k, v). AList.update k v m) b ps = b @ ps"
proof (induction ps arbitrary: b)
  case Nil
  show ?case by simp
next
  case (Cons p ps)
  obtain k v where p: "p = (k, v)" by (cases p)
  have k: "k \<notin> fst ` set b"
    using Cons.prems(2) by (auto simp: p)
  have "fst ` set (b @ [(k, v)]) \<inter> fst ` set ps = {}"
    using Cons.prems by (auto simp: p)
  moreover have "distinct (map fst ps)"
    using Cons.prems(1) by simp
  ultimately have "foldl (\<lambda>m (k, v). AList.update k v m) (b @ [(k, v)]) ps = (b @ [(k, v)]) @ ps"
    by (rule Cons.IH [rotated])
  then show ?case
    by (simp add: p update_new [OF k])
qed

lemma ascending_zip:
  assumes "sorted_wrt (<) ks" and "sorted vs" and "length ks = length vs"
  shows "ascending (zip ks vs)"
proof -
  have "sorted (map fst (zip ks vs))"
    using assms by (simp add: strict_sorted_iff)
  then have "sort_key fst (zip ks vs) = zip ks vs"
    by (rule sort_key_id_if_sorted)
  then show ?thesis
    using assms by (simp add: ascending_def)
qed

lemma float64_le_PosInf: "x \<le> PosInf"
  by (cases x) simp_all

lemma lookup_fst:
  assumes "distinct (map fst b)" and "p \<in> set b" and "fst p \<noteq> NaN"
  shows "lookup b (fst p) = snd p"
proof -
  have "map_of b (fst p) = Some (snd p)"
    using assms(1,2) by simp
  then show ?thesis
    using assms(3) by (simp add: lookup_def)
qed

lemma sum_list_mset_cong:
  fixes xs ys :: "nat list"
  assumes "mset xs = mset ys"
  shows "sum_list xs = sum_list ys"
proof -
  have "sum_mset (mset xs) = sum_mset (mset ys)"
    using assms by simp
  then show ?thesis
    by (simp only: sum_mset_sum_list)
qed

lemma sum_lookup_sorted_keys:
  assumes "distinct (map fst b)" and "NaN \<notin> fst ` set b"
  shows "sum_list (map unat (map (lookup b) (sort (map fst b)))) = sum_list (map (unat \<circ> snd) b)"
proof -
  have e: "map (\<lambda>p. unat (lookup b (fst p))) b = map (unat \<circ> snd) b"
  proof (rule map_cong [OF refl])
    fix p
    assume p: "p \<in> set b"
    then have "fst p \<noteq> NaN"
      using assms(2) by force
    then show "unat (lookup b (fst p)) = (unat \<circ> snd) p"
      by (simp add: lookup_fst [OF assms(1) p])
  qed
  have "mset (map unat (map (lookup b) (sort (map fst b))))
      = mset (map unat (map (lookup b) (map fst b)))"
    by (simp only: mset_map mset_sort)
  also have "map unat (map (lookup b) (map fst b)) = map (unat \<circ> snd) b"
    using e by (simp add: comp_def)
  finally show ?thesis
    by (rule sum_list_mset_cong)
qed

lemma map_of_rev_distinct:
  assumes "distinct (map fst zs)"
  shows "map_of (rev zs) = map_of zs"
proof -
  have "distinct (map fst (rev zs))"
    using assms by (simp add: rev_map [symmetric])
  then show ?thesis
    using assms by (simp add: map_of_inject_set)
qed

lemma map_add_covered:
  assumes "dom m \<subseteq> dom m'"
  shows "m ++ m' = m'"
proof
  fix k
  show "(m ++ m') k = m' k"
    using assms by (cases "m' k") (auto simp: map_add_def)
qed

subsection \<open>Buckets in the order of their bounds\<close>

lemma histogramV2_loop_parses:
  "parsesV2 pf stats \<Longrightarrow>
     histogramV2_loop pf stats b c
       = (writes b
            (zip (map fst (rttPairsV2 pf stats)) (runningSums c (map snd (rttPairsV2 pf stats)))),
          last (c # runningSums c (map snd (rttPairsV2 pf stats))), None)"
proof (induction stats arbitrary: b c)
  case Nil
  show ?case by (simp add: rttPairsV2_def writes_def)
next
  case (Cons s stats)
  have p: "parsesV2 pf stats"
    using Cons.prems by (simp add: parsesV2_def)
  show ?case
  proof (cases "HasPrefix (StatV2.Name s) qryRTT")
    case False
    then have "rttPairsV2 pf (s # stats) = rttPairsV2 pf stats"
      by (simp add: rttPairsV2_def)
    then show ?thesis
      using Cons.IH [OF p, of b c] False by simp
  next
    case True
    then obtain bnd where bnd: "rttBound pf (StatV2.Name s) = Inr bnd"
      using Cons.prems by (auto simp: parsesV2_def)
    have "rttPairsV2 pf (s # stats) = (div1000 bnd, StatV2.Counter s) # rttPairsV2 pf stats"
      using True bnd by (simp add: rttPairsV2_def)
    then show ?thesis
      using Cons.IH [OF p, of "assign (div1000 bnd) (c + StatV2.Counter s) b"
          "c + StatV2.Counter s"] True bnd
      by (simp add: writes_Cons)
  qed
qed

lemma histogramV2_loop_error:
  "\<not> parsesV2 pf stats \<Longrightarrow> snd (snd (histogramV2_loop pf stats b c)) \<noteq> None"
  by (induction stats arbitrary: b c) (auto simp: parsesV2_def split: sum.splits)

lemma histogramV2_no_error:
  "(snd (snd (histogramV2 pf stats)) = None) = parsesV2 pf stats"
proof (cases "parsesV2 pf stats")
  case True
  then show ?thesis
    by (simp add: histogramV2_def histogramV2_loop_parses)
next
  case False
  then show ?thesis
    using histogramV2_loop_error [of pf stats "[]" 0] by (simp add: histogramV2_def)
qed

lemma cumulative_shape:
  assumes "sort_key fst bs = zip ks vs" and "length ks = length vs"
    and "sorted_wrt (<) ks" and "sorted (0 # vs)" and "n = last (0 # vs)"
  shows "fst ` set bs = set ks" and "ascending bs" and "\<forall>(k, v) \<in> set bs. v \<le> n"
    and "bs \<noteq> [] \<longrightarrow> snd (last (sort_key fst bs)) = n"
    and "PosInf \<in> set ks \<longrightarrow> last (sort_key fst bs) = (PosInf, n)"
proof -
  have fz: "map fst (zip ks vs) = ks" "map snd (zip ks vs) = vs"
    using assms(2) by simp_all
  have sb: "set bs = set (zip ks vs)"
    using assms(1) by (metis set_sort)
  show "fst ` set bs = set ks"
    using fz(1) sb by (metis set_map)
  have "sorted vs"
    using assms(4) by simp
  then show "ascending bs"
    using assms(3) by (simp only: ascending_def assms(1) fz simp_thms)
  show "\<forall>(k, v) \<in> set bs. v \<le> n"
  proof (clarify)
    fix k v
    assume "(k, v) \<in> set bs"
    then have "v \<in> set (0 # vs)"
      using sb by (auto dest: set_zip_rightD)
    then show "v \<le> n"
      unfolding assms(5) by (rule sorted_le_last [OF assms(4)])
  qed
  have l: "last (sort_key fst bs) = (last ks, n)" if "ks \<noteq> []"
  proof -
    have "vs \<noteq> []"
      using that assms(2) by auto
    then show ?thesis
      using that assms(2) by (simp add: assms(1,5) last_zip)
  qed
  show "bs \<noteq> [] \<longrightarrow> snd (last (sort_key fst bs)) = n"
  proof
    assume "bs \<noteq> []"
    then have "zip ks vs \<noteq> []"
      using sb by (cases bs) auto
    then have "ks \<noteq> []"
      by auto
    then show "snd (last (sort_key fst bs)) = n"
      by (simp add: l)
  qed
  show "PosInf \<in> set ks \<longrightarrow> last (sort_key fst bs) = (PosInf, n)"
  proof
    assume i: "PosInf \<in> set ks"
    then have ne: "ks \<noteq> []"
      by auto
    have "sorted ks"
      using assms(3) by (simp add: strict_sorted_iff)
    then have "PosInf \<le> last ks"
      using i by (rule sorted_le_last)
    then have "last ks = PosInf"
      using float64_le_PosInf [of "last ks"] by simp
    then show "last (sort_key fst bs) = (PosInf, n)"
      by (simp add: l [OF ne])
  qed
qed

lemma accumulated_sorted:
  assumes "distinct (map fst b)" and "NaN \<notin> fst ` set b" and "ks = sort (map fst b)"
    and "vs = runningSums 0 (map (lookup b) ks)"
    and "bs = writes b (zip ks vs)"
  shows "sort_key fst bs = zip ks vs"
proof -
  have len: "length ks = length vs"
    by (simp add: assms(4) length_runningSums)
  have fz: "map fst (zip ks vs) = ks"
    using len by simp
  have sk: "set ks = fst ` set b"
    by (simp add: assms(3))
  have "fst ` set (zip ks vs) = set ks"
    using fz by (metis set_map)
  then have "NaN \<notin> fst ` set (zip ks vs)"
    using assms(2) sk by simp
  then have bu: "bs = foldl (\<lambda>m (k, v). AList.update k v m) b (zip ks vs)"
    unfolding assms(5) by (rule writes_updates)
  have dk: "distinct ks"
    using assms(1,3) by simp
  have dz: "distinct (map fst (zip ks vs))"
    using dk fz by simp
  have dbs: "distinct (map fst bs)"
    unfolding bu by (rule distinct_updates [OF assms(1)])
  have "dom (map_of b) = set ks"
    by (simp add: assms(3) dom_map_of_conv_image_fst)
  moreover have "dom (map_of (zip ks vs)) = set ks"
    using fz by (metis dom_map_of_conv_image_fst set_map)
  ultimately have "map_of b ++ map_of (zip ks vs) = map_of (zip ks vs)"
    by (intro map_add_covered) simp
  then have m: "map_of bs = map_of (zip ks vs)"
    unfolding bu by (simp only: map_of_updates map_of_rev_distinct [OF dz])
  have st: "set bs = set (zip ks vs)"
    using m dbs dz by (simp only: map_of_inject_set)
  have "distinct bs"
    using dbs by (simp add: distinct_map)
  moreover have "distinct (zip ks vs)"
    using dz by (simp add: distinct_map)
  ultimately have ms: "mset bs = mset (zip ks vs)"
    using st by (simp only: set_eq_iff_mset_eq_distinct)
  have i: "inj_on fst (set bs)"
    using dbs by (simp only: distinct_map)
  have "sorted ks"
    by (simp add: assms(3))
  then have so: "sorted (map fst (zip ks vs))"
    by (simp only: fz)
  show "sort_key fst bs = zip ks vs"
    by (rule sort_key_inj_key_eq [OF ms i so])
qed

lemma histogramV3_shape:
  assumes "histogramV3 pf cs = (bs, n, None)"
    and "NaN \<notin> fst ` set (rttPairsV3 pf cs)"
    and "sum_list (map (unat \<circ> snd) (fst (histogramV3_collect pf cs []))) < 2 ^ 64"
  shows "\<exists>ks vs. sort_key fst bs = zip ks vs \<and> length ks = length vs \<and> sorted_wrt (<) ks
           \<and> sorted (0 # vs) \<and> n = last (0 # vs) \<and> set ks = fst ` set (rttPairsV3 pf cs)"
proof -
  define b where "b = writes [] (rttPairsV3 pf cs)"
  define ks where "ks = sort (map fst b)"
  define vs where "vs = runningSums 0 (map (lookup b) ks)"
  have p: "parsesV3 pf cs"
    using assms(1) histogramV3_no_error [of pf cs] by simp
  have c: "fst (histogramV3_collect pf cs []) = b"
    by (simp add: collect_parses [OF p] b_def)
  have bu: "b = foldl (\<lambda>m (k, v). AList.update k v m) [] (rttPairsV3 pf cs)"
    unfolding b_def by (rule writes_updates [OF assms(2)])
  have db: "distinct (map fst b)"
    by (simp add: bu distinct_updates)
  have kb: "fst ` set b = fst ` set (rttPairsV3 pf cs)"
    by (simp add: bu keys_updates)
  have nb: "NaN \<notin> fst ` set b"
    using assms(2) by (simp only: kb not_False_eq_True)
  have dk: "distinct ks"
    using db by (simp add: ks_def)
  have sk: "sorted_wrt (<) ks"
    using dk by (simp add: strict_sorted_iff ks_def)
  have len: "length ks = length vs"
    by (simp add: vs_def length_runningSums)
  have df: "distinct (filter (\<lambda>k. k \<noteq> NaN) ks)"
    using dk by simp
  have h: "histogramV3 pf cs
      = (fst (histogramV3_accumulate ks b 0), snd (histogramV3_accumulate ks b 0), None)"
    by (simp only: histogramV3_parses [OF p] b_def ks_def)
  have r: "bs = writes b (zip ks vs)" "n = last (0 # vs)"
    using assms(1) by (simp_all add: h accumulate_writes [OF df] vs_def)
  have "sum_list (map unat (map (lookup b) ks)) < 2 ^ 64"
    using assms(3) sum_lookup_sorted_keys [OF db nb] by (simp only: c ks_def)
  then have "unat (0::uint64) + sum_list (map unat (map (lookup b) ks)) < 2 ^ 64"
    by simp
  then have s: "sorted (0 # vs)"
    unfolding vs_def by (rule sorted_runningSums)
  have so: "sort_key fst bs = zip ks vs"
    by (rule accumulated_sorted [OF db nb ks_def vs_def r(1)])
  have "set ks = fst ` set (rttPairsV3 pf cs)"
    by (simp add: ks_def kb)
  then show ?thesis
    using so len sk s r(2) by blast
qed

lemma assign_new: "k \<notin> fst ` set m \<Longrightarrow> assign k v m = m @ [(k, v)]"
  by (simp add: assign_def update_new)

lemma writes_new:
  "distinct (map fst ps) \<Longrightarrow> fst ` set m \<inter> fst ` set ps = {} \<Longrightarrow> writes m ps = m @ ps"
proof (induction ps arbitrary: m)
  case Nil
  show ?case by (simp add: writes_def)
next
  case (Cons p ps)
  obtain k v where p: "p = (k, v)" by (cases p)
  have k: "k \<notin> fst ` set m"
    using Cons.prems(2) by (auto simp: p)
  have "fst ` set (m @ [(k, v)]) \<inter> fst ` set ps = {}"
    using Cons.prems by (auto simp: p)
  moreover have "distinct (map fst ps)"
    using Cons.prems(1) by simp
  ultimately have "writes (m @ [(k, v)]) ps = (m @ [(k, v)]) @ ps"
    by (rule Cons.IH [rotated])
  then show ?case
    by (simp add: p writes_Cons assign_new [OF k])
qed

lemma histogramV2_shape:
  assumes "histogramV2 pf stats = (bs, n, None)"
    and "sorted_wrt (<) (map fst (rttPairsV2 pf stats))"
    and "sum_list (map (unat \<circ> snd) (rttPairsV2 pf stats)) < 2 ^ 64"
  shows "bs = zip (map fst (rttPairsV2 pf stats)) (runningSums 0 (map snd (rttPairsV2 pf stats)))"
    and "sort_key fst bs = bs"
    and "sorted (0 # runningSums 0 (map snd (rttPairsV2 pf stats)))"
    and "n = last (0 # runningSums 0 (map snd (rttPairsV2 pf stats)))"
proof -
  let ?ks = "map fst (rttPairsV2 pf stats)"
  let ?vs = "runningSums 0 (map snd (rttPairsV2 pf stats))"
  have p: "parsesV2 pf stats"
    using assms(1) histogramV2_no_error [of pf stats] by simp
  have len: "length ?ks = length ?vs"
    by (simp add: length_runningSums)
  have fz: "map fst (zip ?ks ?vs) = ?ks"
    using len by simp
  have d: "distinct (map fst (zip ?ks ?vs))"
    using assms(2) by (simp only: fz strict_sorted_iff)
  have r: "bs = writes [] (zip ?ks ?vs)" "n = last (0 # ?vs)"
    using histogramV2_loop_parses [OF p, of "[]" 0] assms(1)
    by (simp_all add: histogramV2_def)
  show "n = last (0 # ?vs)"
    by (rule r(2))
  have "writes [] (zip ?ks ?vs) = [] @ zip ?ks ?vs"
    by (rule writes_new [OF d]) simp
  then show b: "bs = zip ?ks ?vs"
    by (simp add: r(1))
  have "sorted (map fst bs)"
    using assms(2) by (simp only: b fz strict_sorted_iff)
  then show "sort_key fst bs = bs"
    by (rule sort_key_id_if_sorted)
  have "unat (0::uint64) + sum_list (map unat (map snd (rttPairsV2 pf stats))) < 2 ^ 64"
    using assms(3) by (simp add: comp_def)
  then show "sorted (0 # ?vs)"
    by (rule sorted_runningSums)
qed

text \<open>
  C5 (as amended). Let no RTT counter have the bound NaN. A histogram \<open>histogramV3\<close>
  builds without error from raw counts that sum to less than \<open>2^64\<close>, and a histogram
  \<open>histogramV2\<close> builds without error from RTT counters that come in strictly ascending
  order of their bounds with counts that sum to less than \<open>2^64\<close>, has the bounds of the
  RTT counters and, read in the order of its bounds, strictly ascending bounds and
  non-decreasing counts, none above the total count; the bucket of the greatest bound
  holds the total count, and it is the bucket of \<open>+Inf\<close> when a counter has that bound.
\<close>

theorem histogram_buckets_ascending:
  "(histogramV3 pf cs = (bs, n, None)
      \<and> NaN \<notin> fst ` set (rttPairsV3 pf cs)
      \<and> sum_list (map (unat \<circ> snd) (fst (histogramV3_collect pf cs []))) < 2 ^ 64
    \<longrightarrow> fst ` set bs = fst ` set (rttPairsV3 pf cs)
        \<and> ascending bs
        \<and> (\<forall>(k, v) \<in> set bs. v \<le> n)
        \<and> (bs \<noteq> [] \<longrightarrow> snd (last (sort_key fst bs)) = n)
        \<and> (PosInf \<in> fst ` set (rttPairsV3 pf cs) \<longrightarrow> last (sort_key fst bs) = (PosInf, n)))
   \<and> (histogramV2 pf stats = (bs2, n2, None)
      \<and> sorted_wrt (<) (map fst (rttPairsV2 pf stats))
      \<and> NaN \<notin> fst ` set (rttPairsV2 pf stats)
      \<and> sum_list (map (unat \<circ> snd) (rttPairsV2 pf stats)) < 2 ^ 64
    \<longrightarrow> map fst bs2 = map fst (rttPairsV2 pf stats)
        \<and> ascending bs2
        \<and> (\<forall>(k, v) \<in> set bs2. v \<le> n2)
        \<and> (bs2 \<noteq> [] \<longrightarrow> snd (last bs2) = n2)
        \<and> (PosInf \<in> fst ` set (rttPairsV2 pf stats) \<longrightarrow> last bs2 = (PosInf, n2)))"
proof -
  have 3: "fst ` set bs = fst ` set (rttPairsV3 pf cs)
        \<and> ascending bs
        \<and> (\<forall>(k, v) \<in> set bs. v \<le> n)
        \<and> (bs \<noteq> [] \<longrightarrow> snd (last (sort_key fst bs)) = n)
        \<and> (PosInf \<in> fst ` set (rttPairsV3 pf cs) \<longrightarrow> last (sort_key fst bs) = (PosInf, n))"
    if h: "histogramV3 pf cs = (bs, n, None)" "NaN \<notin> fst ` set (rttPairsV3 pf cs)"
      "sum_list (map (unat \<circ> snd) (fst (histogramV3_collect pf cs []))) < 2 ^ 64"
  proof -
    from histogramV3_shape [OF h] obtain ks vs where s: "sort_key fst bs = zip ks vs"
      "length ks = length vs" "sorted_wrt (<) ks" "sorted (0 # vs)" "n = last (0 # vs)"
      and k: "set ks = fst ` set (rttPairsV3 pf cs)"
      by blast
    note c = cumulative_shape [OF s]
    show ?thesis
      using c by (simp only: k simp_thms)
  qed
  have 2: "map fst bs2 = map fst (rttPairsV2 pf stats)
        \<and> ascending bs2
        \<and> (\<forall>(k, v) \<in> set bs2. v \<le> n2)
        \<and> (bs2 \<noteq> [] \<longrightarrow> snd (last bs2) = n2)
        \<and> (PosInf \<in> fst ` set (rttPairsV2 pf stats) \<longrightarrow> last bs2 = (PosInf, n2))"
    if h: "histogramV2 pf stats = (bs2, n2, None)"
      "sorted_wrt (<) (map fst (rttPairsV2 pf stats))"
      "sum_list (map (unat \<circ> snd) (rttPairsV2 pf stats)) < 2 ^ 64"
  proof -
    let ?ks = "map fst (rttPairsV2 pf stats)"
    let ?vs = "runningSums 0 (map snd (rttPairsV2 pf stats))"
    note s = histogramV2_shape [OF h]
    have len: "length ?ks = length ?vs"
      by (simp add: length_runningSums)
    have z: "sort_key fst bs2 = zip ?ks ?vs"
      using s(1,2) by simp
    note c = cumulative_shape [OF z len h(2) s(3,4)]
    have "map fst bs2 = ?ks"
      using len by (simp add: s(1))
    then show ?thesis
      using c by (simp only: s(2) set_map simp_thms)
  qed
  show ?thesis
    using 2 3 by blast
qed

theorem histogram_buckets_ascending_witness:
  "histogramV3 parseDecimal
        [\<lparr>CounterV3.Name = ''QryRTT100'', Counter = 5\<rparr>, \<lparr>CounterV3.Name = ''QryRTT10'', Counter = 3\<rparr>,
         \<lparr>CounterV3.Name = ''QryRTT1600+'', Counter = 2\<rparr>]
       = ([(Finite (1/10), 8), (Finite (1/100), 3), (PosInf, 10)], 10, None)
   \<and> rttPairsV3 parseDecimal
        [\<lparr>CounterV3.Name = ''QryRTT100'', Counter = 5\<rparr>, \<lparr>CounterV3.Name = ''QryRTT10'', Counter = 3\<rparr>,
         \<lparr>CounterV3.Name = ''QryRTT1600+'', Counter = 2\<rparr>]
       = [(Finite (1/10), 5), (Finite (1/100), 3), (PosInf, 2)]
   \<and> ascending [(Finite (1/10), 8), (Finite (1/100), 3), (PosInf, 10)]
   \<and> last (sort_key fst [(Finite (1/10), 8), (Finite (1/100), 3), (PosInf, 10::uint64)]) = (PosInf, 10)
   \<and> histogramV2 parseDecimal
           [\<lparr>StatV2.Name = ''QryRTT10'', Counter = 5\<rparr>,
            \<lparr>StatV2.Name = ''QryRTT100'', Counter = 3\<rparr>,
            \<lparr>StatV2.Name = ''QryRTT100+'', Counter = 2\<rparr>]
         = ([(Finite (1/100), 5), (Finite (1/10), 8), (PosInf, 10)], 10, None)
   \<and> rttPairsV2 parseDecimal
           [\<lparr>StatV2.Name = ''QryRTT10'', Counter = 5\<rparr>,
            \<lparr>StatV2.Name = ''QryRTT100'', Counter = 3\<rparr>,
            \<lparr>StatV2.Name = ''QryRTT100+'', Counter = 2\<rparr>]
         = [(Finite (1/100), 5), (Finite (1/10), 3), (PosInf, 2)]
   \<and> ascending [(Finite (1/100), 5), (Finite (1/10), 8), (PosInf, 10)]
   \<and> last [(Finite (1/100), 5), (Finite (1/10), 8), (PosInf, 10::uint64)] = (PosInf, 10)"
proof -
  let ?cs = "[\<lparr>CounterV3.Name = ''QryRTT100'', Counter = 5\<rparr>, \<lparr>CounterV3.Name = ''QryRTT10'', Counter = 3\<rparr>,
         \<lparr>CounterV3.Name = ''QryRTT1600+'', Counter = 2\<rparr>]"
  let ?stats = "[\<lparr>StatV2.Name = ''QryRTT10'', Counter = 5\<rparr>,
            \<lparr>StatV2.Name = ''QryRTT100'', Counter = 3\<rparr>,
            \<lparr>StatV2.Name = ''QryRTT100+'', Counter = 2\<rparr>]"
  let ?bs = "[(Finite (1/10), 8), (Finite (1/100), 3), (PosInf, 10::uint64)]"
  let ?bs2 = "[(Finite (1/100), 5), (Finite (1/10), 8), (PosInf, 10::uint64)]"
  have x: "histogramV3 parseDecimal ?cs = (?bs, 10, None)"
    by (simp add: rtt_eval less_float64_def)
  have p3: "rttPairsV3 parseDecimal ?cs = [(Finite (1/10), 5), (Finite (1/100), 3), (PosInf, 2)]"
    by (simp add: rttPairsV3_def rtt_eval)
  have n3: "NaN \<notin> fst ` set (rttPairsV3 parseDecimal ?cs)"
    by (simp add: p3)
  have i3: "PosInf \<in> fst ` set (rttPairsV3 parseDecimal ?cs)"
    by (simp add: p3)
  have c: "fst (histogramV3_collect parseDecimal ?cs [])
      = [(Finite (1/10), 5), (Finite (1/100), 3), (PosInf, 2)]"
    by (simp add: rtt_eval)
  have s3: "sum_list (map (unat \<circ> snd) (fst (histogramV3_collect parseDecimal ?cs []))) < 2 ^ 64"
    by (simp only: c) simp
  have y: "histogramV2 parseDecimal ?stats = (?bs2, 10, None)"
    by (simp add: rtt_eval)
  have p2: "rttPairsV2 parseDecimal ?stats = [(Finite (1/100), 5), (Finite (1/10), 3), (PosInf, 2)]"
    by (simp add: rttPairsV2_def rtt_eval)
  have o: "sorted_wrt (<) (map fst (rttPairsV2 parseDecimal ?stats))"
    by (simp add: p2 less_float64_def)
  have n2: "NaN \<notin> fst ` set (rttPairsV2 parseDecimal ?stats)"
    by (simp add: p2)
  have i2: "PosInf \<in> fst ` set (rttPairsV2 parseDecimal ?stats)"
    by (simp add: p2)
  have s2: "sum_list (map (unat \<circ> snd) (rttPairsV2 parseDecimal ?stats)) < 2 ^ 64"
    by (simp add: p2)
  show ?thesis
    using histogram_buckets_ascending [of parseDecimal ?cs ?bs 10 ?stats ?bs2 10]
      x p3 n3 i3 s3 y p2 o n2 i2 s2
    by blast
qed

text \<open>
  C5 as stated fails. \<open>histogramV2\<close> sums in input order: from \<open>QryRTT100 = 3\<close> before
  \<open>QryRTT10 = 5\<close> it builds \<open>0.1: 3\<close> and \<open>0.01: 8\<close>, the smaller bound with the larger
  count. The sums are \<open>uint64\<close> and wrap around: from four counters of \<open>2^62\<close> each
  \<open>histogramV3\<close> builds the count 0 for the largest bound. And a name that parses to NaN
  is no error: from \<open>QryRTTNaN = 5\<close> and \<open>QryRTT10 = 3\<close> \<open>histogramV3\<close> builds two buckets
  with the bound NaN, one of them with the count 5, above the total count 3.
\<close>

theorem histogram_buckets_ascending_counterexample:
  "histogramV2 parseDecimal
     [\<lparr>StatV2.Name = ''QryRTT100'', Counter = 3\<rparr>, \<lparr>StatV2.Name = ''QryRTT10'', Counter = 5\<rparr>]
     = ([(Finite (1/10), 3), (Finite (1/100), 8)], 8, None)
   \<and> \<not> ascending [(Finite (1/10), 3), (Finite (1/100), 8)]
   \<and> histogramV3 parseDecimal
     [\<lparr>CounterV3.Name = ''QryRTT10'', Counter = 4611686018427387904\<rparr>,
      \<lparr>CounterV3.Name = ''QryRTT100'', Counter = 4611686018427387904\<rparr>,
      \<lparr>CounterV3.Name = ''QryRTT500'', Counter = 4611686018427387904\<rparr>,
      \<lparr>CounterV3.Name = ''QryRTT800'', Counter = 4611686018427387904\<rparr>]
     = ([(Finite (1/100), 4611686018427387904), (Finite (1/10), 9223372036854775808),
         (Finite (1/2), 13835058055282163712), (Finite (4/5), 0)], 0, None)
   \<and> \<not> ascending [(Finite (1/100), 4611686018427387904), (Finite (1/10), 9223372036854775808),
         (Finite (1/2), 13835058055282163712), (Finite (4/5), 0::uint64)]
   \<and> histogramV3 parseDecimal
     [\<lparr>CounterV3.Name = ''QryRTTNaN'', Counter = 5\<rparr>, \<lparr>CounterV3.Name = ''QryRTT10'', Counter = 3\<rparr>]
     = ([(NaN, 5), (Finite (1/100), 3), (NaN, 0)], 3, None)
   \<and> \<not> ascending [(NaN, 5), (Finite (1/100), 3), (NaN, 0)]
   \<and> \<not> (5 \<le> (3::uint64))"
  by (simp add: rtt_eval ascending_def less_float64_def)

subsection \<open>The mapping of the name-server counters\<close>

lemma UpdateV2_withNsStats:
  "UpdateV2 pf e (withNsStats xs tree) =
     (let stats = BindV2.Statistics (BindRootV2.Bind tree) in
      concat (map (\<lambda>s. [MustNewConstMetric incomingQueries CounterValue
                          (float64_of (StatV2.Counter s)) [StatV2.Name s]])
                (QueriesIn.Rdtype (ServerV2.QueriesIn (StatisticsV2.Server stats))))
      @ concat (map (\<lambda>s. [MustNewConstMetric incomingRequests CounterValue
                            (float64_of (StatV2.Counter s)) [StatV2.Name s]])
                  (Opcode (ServerV2.Requests (StatisticsV2.Server stats))))
      @ concat (map (\<lambda>s. nsStat (StatV2.Name s) (StatV2.Counter s)) xs)
      @ concat (map (viewV2 pf) (StatisticsV2.Views stats))
      @ taskMetrics (TaskManager.ThreadModel (StatisticsV2.Taskmgr stats)))"
  by (simp add: UpdateV2_def withNsStats_def Let_def)

lemma nsStat_QrySuccess:
  "nsStat ''QrySuccess'' 10 =
     [ConstMetric \<lparr>fqName = ''bind_responses_total'', variableLabels = [''result'']\<rparr>
        CounterValue (Finite 10) [''Success'']]"
  by (simp add: nsStat_def serverLabelStats_def serverReponses_def NewDesc_def BuildFQName_def
      namespace_def TrimPrefix_def HasPrefix_def MustNewConstMetric_def float64_of_def)

text \<open>
  C7. The counter \<open>QrySuccess\<close> with value 10 becomes the sample 10 of
  \<open>bind_responses_total\<close> with the label value \<open>Success\<close>, which \<open>UpdateV2\<close> sends. A
  counter whose name is not a key of \<open>serverLabelStats\<close> becomes no metric: \<open>UpdateV2\<close>,
  and \<open>UpdateV3\<close> for a group of type \<open>nsstat\<close>, send what they send without that
  counter.
\<close>

theorem nsStats_mapping:
  "nsStat ''QrySuccess'' 10 =
     [ConstMetric \<lparr>fqName = ''bind_responses_total'', variableLabels = [''result'']\<rparr>
        CounterValue (Finite 10) [''Success'']]
   \<and> UpdateV2 pf e (withNsStats (pre @ \<lparr>StatV2.Name = ''QrySuccess'', Counter = 10\<rparr> # post) tree)
       \<noteq> UpdateV2 pf e (withNsStats (pre @ post) tree)
   \<and> ConstMetric \<lparr>fqName = ''bind_responses_total'', variableLabels = [''result'']\<rparr>
        CounterValue (Finite 10) [''Success'']
       \<in> set (UpdateV2 pf e (withNsStats (pre @ \<lparr>StatV2.Name = ''QrySuccess'', Counter = 10\<rparr> # post) tree))
   \<and> (serverLabelStats name = None \<longrightarrow>
        nsStat name c = []
        \<and> UpdateV2 pf e (withNsStats (pre @ \<lparr>StatV2.Name = name, Counter = c\<rparr> # post) tree)
            = UpdateV2 pf e (withNsStats (pre @ post) tree)
        \<and> serverCountersV3
              \<lparr>Type = ''nsstat'', Counter = pre3 @ \<lparr>CounterV3.Name = name, Counter = c\<rparr> # post3\<rparr>
            = serverCountersV3 \<lparr>Type = ''nsstat'', Counter = pre3 @ post3\<rparr>)"
proof -
  have 2: "nsStat name c = []" if "serverLabelStats name = None"
    using that by (simp add: nsStat_def)
  show ?thesis
    using 2 by (simp add: UpdateV2_withNsStats nsStat_QrySuccess Let_def serverCountersV3_def)
qed

theorem nsStats_mapping_witness:
  "serverLabelStats ''QryRecursion'' = None
   \<and> UpdateV2 parseDecimal (NewExporter ''http://h:1'' [] (probeClient 200))
        (withNsStats [\<lparr>StatV2.Name = ''QryRecursion'', Counter = 7\<rparr>] zeroBindRootV2)
      = UpdateV2 parseDecimal (NewExporter ''http://h:1'' [] (probeClient 200))
          (withNsStats [] zeroBindRootV2)"
proof -
  have n: "serverLabelStats ''QryRecursion'' = None"
    by (simp add: serverLabelStats_def)
  show ?thesis
    using n nsStats_mapping [where pf = parseDecimal
        and e = "NewExporter ''http://h:1'' [] (probeClient 200)" and pre = "[]" and post = "[]"
        and tree = zeroBindRootV2 and name = "''QryRecursion''" and c = 7]
    by simp
qed

subsection \<open>The liveness gauge\<close>

text \<open>No metric that \<open>UpdateV2\<close> or \<open>UpdateV3\<close> sends is a sample of \<open>up\<close>.\<close>

lemma upValues_append: "upValues (xs @ ys) = upValues xs @ upValues ys"
  by (induction xs rule: upValues.induct) auto

lemma upValues_concat:
  "(\<And>x. x \<in> set xs \<Longrightarrow> upValues (f x) = []) \<Longrightarrow> upValues (concat (map f xs)) = []"
  by (induction xs) (auto simp: upValues_append)

lemma fqName_up: "fqName up = ''bind_up''"
  by (simp add: up_def NewDesc_def BuildFQName_def namespace_def)

lemma upValues_other:
  "fqName d \<noteq> ''bind_up'' \<Longrightarrow> upValues [MustNewConstMetric d t v ls] = []"
  using fqName_up by (auto simp: MustNewConstMetric_def)

lemma not_up: "fqName d \<noteq> ''bind_up'' \<Longrightarrow> d \<noteq> up"
  using fqName_up by auto

lemma upValues_map_other:
  "fqName d \<noteq> ''bind_up'' \<Longrightarrow>
     upValues (map (\<lambda>x. MustNewConstMetric d t (v x) (ls x)) xs) = []"
  by (induction xs) (simp_all add: MustNewConstMetric_def not_up)

lemma upValues_sendUp: "upValues (sendUp s) = [s]"
  by (simp add: sendUp_def MustNewConstMetric_def)

lemma serverLabelStats_fqName:
  "serverLabelStats name = Some d \<Longrightarrow> fqName d \<noteq> ''bind_up''"
  by (auto simp: serverLabelStats_def serverQueryErrors_def serverReponses_def NewDesc_def
      BuildFQName_def namespace_def split: if_splits)

lemma resolverMetricStats_fqName:
  "resolverMetricStats name = Some d \<Longrightarrow> fqName d \<noteq> ''bind_up''"
  by (auto simp: resolverMetricStats_def NewDesc_def BuildFQName_def namespace_def resolver_def
      split: if_splits)

lemma resolverLabelStats_fqName:
  "resolverLabelStats name = Some d \<Longrightarrow> fqName d \<noteq> ''bind_up''"
  by (auto simp: resolverLabelStats_def resolverQueryErrors_def resolverResponseErrors_def
      resolverDNSSECSucess_def NewDesc_def BuildFQName_def namespace_def resolver_def
      split: if_splits)

lemma upValues_nsStat: "upValues (nsStat name c) = []"
  by (auto simp: nsStat_def upValues_other serverLabelStats_fqName split: option.splits)

lemma upValues_resStat: "upValues (resStat view name c) = []"
  by (auto simp: resStat_def upValues_append upValues_other resolverMetricStats_fqName
      resolverLabelStats_fqName split: option.splits)

lemma upValues_queryDuration: "upValues (queryDuration view h) = []"
  by (auto simp: queryDuration_def MustNewConstHistogram_def split: prod.splits option.splits)

lemma fqName_tasks:
  "fqName tasksRunning \<noteq> ''bind_up''" "fqName workerThreads \<noteq> ''bind_up''"
  by (simp_all add: tasksRunning_def workerThreads_def NewDesc_def BuildFQName_def namespace_def)

lemma upValues_taskMetrics: "upValues (taskMetrics tm) = []"
  by (simp add: taskMetrics_def MustNewConstMetric_def not_up fqName_tasks)

lemma fqName_others:
  "fqName incomingQueries \<noteq> ''bind_up''" "fqName incomingRequests \<noteq> ''bind_up''"
  "fqName resolverCache \<noteq> ''bind_up''" "fqName resolverQueries \<noteq> ''bind_up''"
  by (simp_all add: incomingQueries_def incomingRequests_def resolverCache_def
      resolverQueries_def NewDesc_def BuildFQName_def namespace_def resolver_def)

lemma upValues_viewV2: "upValues (viewV2 pf v) = []"
  by (simp add: viewV2_def upValues_append upValues_concat upValues_map_other fqName_others
      upValues_resStat upValues_queryDuration)

lemma upValues_UpdateV2: "upValues (UpdateV2 pf e tree) = []"
  by (simp add: UpdateV2_def Let_def upValues_append upValues_concat upValues_map_other
      fqName_others upValues_nsStat upValues_viewV2 upValues_taskMetrics)

lemma upValues_serverCountersV3: "upValues (serverCountersV3 cs) = []"
  by (simp add: serverCountersV3_def upValues_concat upValues_map_other fqName_others
      upValues_nsStat)

lemma upValues_viewCountersV3: "upValues (viewCountersV3 pf v c) = []"
  by (simp add: viewCountersV3_def upValues_append upValues_concat upValues_map_other fqName_others
      upValues_resStat upValues_queryDuration)

lemma upValues_viewV3: "upValues (viewV3 pf v) = []"
  by (simp add: viewV3_def upValues_append upValues_concat upValues_map_other fqName_others
      upValues_viewCountersV3)

lemma upValues_UpdateV3: "upValues (UpdateV3 pf e tree) = []"
  by (simp add: UpdateV3_def upValues_append upValues_concat upValues_serverCountersV3
      upValues_viewV3 upValues_taskMetrics)

text \<open>
  The \<open>Collect\<close> with version detection sends one sample of \<open>up\<close>: 1 when \<open>GetVersion\<close> and
  then \<open>FetchV3\<close> or \<open>FetchV2\<close> return without error, whatever the histogram builders
  return, and 0 in every other case.
\<close>

lemma Collect_up:
  "upValues (fst (fst (Collect rt e reqs))) =
     [case GetVersion e reqs of
        (Ok ver, e1, reqs1) \<Rightarrow>
          if ver = ''v3'' then
            (case fst (FetchV3 rt e1 reqs1) of Ok tree \<Rightarrow> Finite 1 | _ \<Rightarrow> Finite 0)
          else
            (case fst (FetchV2 rt e1 reqs1) of Inr tree \<Rightarrow> Finite 1 | Inl err \<Rightarrow> Finite 0)
      | _ \<Rightarrow> Finite 0]"
  by (auto simp: Collect_def upValues_append upValues_sendUp upValues_UpdateV2 upValues_UpdateV3
      split: prod.splits outcome.splits sum.splits)

text \<open>
  The \<open>Collect\<close> of the single-fetch collector sends one sample of \<open>up\<close>: 1 when the
  request and the reading of the body succeed, whatever \<open>xml.Unmarshal\<close> returns, and 0
  in every other case.
\<close>

lemma fqName_Isc:
  "fqName incomingQueries_Isc \<noteq> ''bind_up''" "fqName incomingRequests_Isc \<noteq> ''bind_up''"
  by (simp_all add: incomingQueries_Isc_def incomingRequests_Isc_def NewDesc_def BuildFQName_def
      namespace_def)

lemma Collect_Isc_up:
  "upValues (fst (Collect_Isc Unmarshal e reqs)) =
     [case Exporter_Isc.client e reqs (Exporter_Isc.URI e) of
        Inl err \<Rightarrow> Finite 0
      | Inr resp \<Rightarrow> (case Body resp of Inl err \<Rightarrow> Finite 0 | Inr body \<Rightarrow> Finite 1)]"
  by (auto simp: Collect_Isc_def Get_def Let_def upValues_append upValues_sendUp
      upValues_map_other fqName_Isc split: sum.splits)

text \<open>
  C1. The \<open>Collect\<close> of the single-fetch collector sets the status to 1 before it
  unmarshals the body: at a response whose body \<open>xml.Unmarshal\<close> rejects, it sends
  \<open>up = 1\<close>.
\<close>

theorem Collect_Isc_up_after_unmarshal_error:
  "sampleUnmarshal_Isc [] = Inl (UnmarshalError ''EOF'')
   \<and> Collect_Isc sampleUnmarshal_Isc
        \<lparr>Exporter_Isc.URI = ''http://localhost:8053/'', client = probeClient 200\<rparr> []
      = (sendUp (Finite 1), [''http://localhost:8053/''])
   \<and> upValues (fst (Collect_Isc sampleUnmarshal_Isc
        \<lparr>Exporter_Isc.URI = ''http://localhost:8053/'', client = probeClient 200\<rparr> []))
      = [Finite 1]"
  by (simp add: Collect_Isc_def Get_def probeClient_def sampleUnmarshal_Isc_def upValues_sendUp)

subsection \<open>The version field\<close>

lemma Collect_exporter: "fst (snd (Collect rt e reqs)) = e"
proof -
  obtain r e1 reqs1 where g: "GetVersion e reqs = (r, e1, reqs1)"
    by (cases "GetVersion e reqs") auto
  have "e1 = e"
    using GetVersion_exporter [of e reqs] g by simp
  then show ?thesis
    by (auto simp: Collect_def g split: outcome.splits prod.splits sum.splits)
qed

lemma scrapes_exporter: "fst (snd (scrapes rt n e reqs)) = e"
proof (induction n arbitrary: reqs)
  case 0
  show ?case by simp
next
  case (Suc n)
  obtain out reqs1 where c: "Collect rt e reqs = (out, e, reqs1)"
    using Collect_exporter [of rt e reqs] by (cases "Collect rt e reqs") auto
  show ?case
    using Suc [of reqs1] by (auto simp: c split: prod.splits)
qed

lemma Fetch_requests: "snd (Fetch e uri reqs) = reqs @ [uri]"
  by (simp add: Fetch_def Get_def split: sum.splits)

lemma FetchV2_requests: "snd (FetchV2 rt e reqs) = reqs @ [URI e]"
  using Fetch_requests [of e "URI e" reqs]
  by (auto simp: FetchV2_def split: prod.splits sum.splits)

lemma FetchV3_loop_requests: "\<exists>more. snd (FetchV3_loop rt e ms tree reqs) = reqs @ more"
proof (induction ms arbitrary: tree reqs)
  case Nil
  show ?case by simp
next
  case (Cons m ms)
  show ?case
  proof (cases "GetV3URI e m")
    case (Ok uri)
    obtain r where f: "Fetch e uri reqs = (r, reqs @ [uri])"
      using Fetch_requests [of e uri reqs] by (cases "Fetch e uri reqs") auto
    show ?thesis
    proof (cases r)
      case (Inl err)
      then show ?thesis by (simp add: Ok f)
    next
      case (Inr body)
      show ?thesis
      proof (cases "UnmarshalV3 rt body tree")
        case (Inl err)
        then show ?thesis by (simp add: Ok f Inr)
      next
        case (Inr tree')
        obtain more where "snd (FetchV3_loop rt e ms tree' (reqs @ [uri])) = (reqs @ [uri]) @ more"
          using Cons by blast
        then show ?thesis
          by (simp add: Ok f \<open>r = Inr body\<close> Inr)
      qed
    qed
  qed simp_all
qed

lemma FetchV3_requests: "\<exists>more. snd (FetchV3 rt e reqs) = reqs @ more"
  using FetchV3_loop_requests [of rt e "metrics e" zeroBindRootV3 reqs]
  by (auto simp: FetchV3_def split: prod.splits outcome.splits)

lemma GetVersion_probe:
  assumes "version e = []" and "GetV3URI e ''status'' = Ok p"
  shows "snd (snd (GetVersion e reqs)) = reqs @ [p]"
  using assms by (simp add: GetVersion_def Get_def split: sum.splits)

lemma Collect_probe:
  assumes "version e = []" and "GetV3URI e ''status'' = Ok p"
  shows "\<exists>more. snd (snd (Collect rt e reqs)) = reqs @ p # more"
proof -
  obtain r where g: "GetVersion e reqs = (r, e, reqs @ [p])"
    using GetVersion_probe [OF assms, of reqs] GetVersion_exporter [of e reqs]
    by (cases "GetVersion e reqs") auto
  obtain m3 where m3: "snd (FetchV3 rt e (reqs @ [p])) = (reqs @ [p]) @ m3"
    using FetchV3_requests by blast
  have m2: "snd (FetchV2 rt e (reqs @ [p])) = (reqs @ [p]) @ [URI e]"
    by (rule FetchV2_requests)
  show ?thesis
    using m3 m2 by (auto simp: Collect_def g split: outcome.splits prod.splits sum.splits)
qed

text \<open>
  C9. \<open>GetVersion\<close> returns a non-empty \<open>version\<close> field without a request, but it and
  \<open>Collect\<close> leave the exporter as they found it. An exporter made by \<open>NewExporter\<close> is
  therefore unchanged after any number of scrapes, its \<open>version\<close> still empty, and the
  next scrape starts with the probe of \<open>xml/v3/status\<close> again.
\<close>

theorem version_never_cached:
  "(version e \<noteq> [] \<longrightarrow> GetVersion e reqs = (Ok (version e), e, reqs))
   \<and> fst (snd (GetVersion e reqs)) = e
   \<and> fst (snd (Collect rt e reqs)) = e
   \<and> fst (snd (scrapes rt n (NewExporter u ms c) reqs)) = NewExporter u ms c
   \<and> version (fst (snd (scrapes rt n (NewExporter u ms c) reqs))) = []
   \<and> (GetV3URI (NewExporter u ms c) ''status'' = Ok p \<longrightarrow>
        (\<exists>more. snd (snd (Collect rt (fst (snd (scrapes rt n (NewExporter u ms c) reqs)))
                              (snd (snd (scrapes rt n (NewExporter u ms c) reqs)))))
                = snd (snd (scrapes rt n (NewExporter u ms c) reqs)) @ p # more))"
proof -
  have v: "version (NewExporter u ms c) = []"
    by (simp add: NewExporter_def)
  have g: "GetVersion e reqs = (Ok (version e), e, reqs)" if "version e \<noteq> []"
    using that by (simp add: GetVersion_def)
  show ?thesis
    using Collect_probe [OF v] v g
    by (simp add: GetVersion_exporter Collect_exporter scrapes_exporter)
qed

theorem version_never_cached_witness:
  "GetV3URI (NewExporter ''http://h:1/'' [''server''] (probeClient 200)) ''status''
     = Ok ''http://h:1/xml/v3/status''
   \<and> snd (snd (scrapes sampleRuntime (Suc (Suc 0))
        (NewExporter ''http://h:1/'' [''server''] (probeClient 200)) []))
     = [''http://h:1/xml/v3/status'', ''http://h:1/xml/v3/server'',
        ''http://h:1/xml/v3/status'', ''http://h:1/xml/v3/server'']
   \<and> (\<exists>more. snd (snd (Collect sampleRuntime
          (fst (snd (scrapes sampleRuntime (Suc (Suc 0))
             (NewExporter ''http://h:1/'' [''server''] (probeClient 200)) [])))
          (snd (snd (scrapes sampleRuntime (Suc (Suc 0))
             (NewExporter ''http://h:1/'' [''server''] (probeClient 200)) [])))))
        = snd (snd (scrapes sampleRuntime (Suc (Suc 0))
             (NewExporter ''http://h:1/'' [''server''] (probeClient 200)) []))
          @ ''http://h:1/xml/v3/status'' # more)
   \<and> GetVersion ((NewExporter ''http://h:1/'' [''server''] (probeClient 200))\<lparr>version := ''v3''\<rparr>) []
     = (Ok ''v3'', (NewExporter ''http://h:1/'' [''server''] (probeClient 200))\<lparr>version := ''v3''\<rparr>, [])"
proof -
  let ?e = "NewExporter ''http://h:1/'' [''server''] (probeClient 200)"
  have p: "GetV3URI ?e ''status'' = Ok ''http://h:1/xml/v3/status''"
    by (simp add: NewExporter_def GetV3URI_def)
  have c: "snd (snd (Collect sampleRuntime ?e reqs))
      = reqs @ [''http://h:1/xml/v3/status'', ''http://h:1/xml/v3/server'']" for reqs
    by (simp add: Collect_def GetVersion_def GetV3URI_def NewExporter_def Get_def probeClient_def
        FetchV3_def Fetch_def sampleRuntime_def)
  have e: "fst (snd (Collect sampleRuntime ?e reqs)) = ?e" for reqs
    by (rule Collect_exporter)
  have s: "snd (snd (scrapes sampleRuntime (Suc (Suc 0)) ?e []))
      = [''http://h:1/xml/v3/status'', ''http://h:1/xml/v3/server'',
         ''http://h:1/xml/v3/status'', ''http://h:1/xml/v3/server'']"
    using c e by (simp add: split_beta)
  have t: "\<exists>more. snd (snd (Collect sampleRuntime
          (fst (snd (scrapes sampleRuntime (Suc (Suc 0)) ?e [])))
          (snd (snd (scrapes sampleRuntime (Suc (Suc 0)) ?e [])))))
        = snd (snd (scrapes sampleRuntime (Suc (Suc 0)) ?e []))
          @ ''http://h:1/xml/v3/status'' # more"
    using version_never_cached [where e = ?e and reqs = "[]" and rt = sampleRuntime
        and n = "Suc (Suc 0)" and u = "''http://h:1/''" and ms = "[''server'']"
        and c = "probeClient 200" and p = "''http://h:1/xml/v3/status''"] p
    by blast
  have "version (?e\<lparr>version := ''v3''\<rparr>) \<noteq> []"
    by simp
  then have g: "GetVersion (?e\<lparr>version := ''v3''\<rparr>) [] = (Ok ''v3'', ?e\<lparr>version := ''v3''\<rparr>, [])"
    using version_never_cached [where e = "?e\<lparr>version := ''v3''\<rparr>" and reqs = "[]"]
    by simp
  show ?thesis
    by (rule conjI [OF p conjI [OF s conjI [OF t g]]])
qed

subsection \<open>The fetch loop of the third generation\<close>

lemma FetchV3_loop_step:
  assumes "GetV3URI e m = Ok uri" and "Fetch e uri reqs = (Inr body, reqs1)"
    and "UnmarshalV3 rt body tree = Inr tree1"
  shows "FetchV3_loop rt e (m # ms) tree reqs = FetchV3_loop rt e ms tree1 reqs1"
  using assms by simp

lemma FetchV3_loop_Ok_Cons:
  assumes "FetchV3_loop rt e (m # ms) tree reqs = (Ok t1, r1)"
  obtains uri body tree1 where "GetV3URI e m = Ok uri"
    and "Fetch e uri reqs = (Inr body, reqs @ [uri])"
    and "UnmarshalV3 rt body tree = Inr tree1"
    and "FetchV3_loop rt e ms tree1 (reqs @ [uri]) = (Ok t1, r1)"
proof (cases "GetV3URI e m")
  case (Ok uri)
  obtain r where f: "Fetch e uri reqs = (r, reqs @ [uri])"
    using Fetch_requests [of e uri reqs] by (cases "Fetch e uri reqs") auto
  show ?thesis
  proof (cases r)
    case (Inl err)
    then show ?thesis using assms Ok f by simp
  next
    case (Inr body)
    show ?thesis
    proof (cases "UnmarshalV3 rt body tree")
      case (Inl err)
      then show ?thesis using assms Ok f \<open>r = Inr body\<close> by simp
    next
      case (Inr tree1)
      with assms Ok f \<open>r = Inr body\<close> that show ?thesis by simp
    qed
  qed
next
  case (Err err)
  then show ?thesis using assms by simp
next
  case Panic
  then show ?thesis using assms by simp
qed

lemma FetchV3_loop_append:
  "FetchV3_loop rt e pre tree reqs = (Ok t1, r1) \<Longrightarrow>
     FetchV3_loop rt e (pre @ post) tree reqs = FetchV3_loop rt e post t1 r1"
proof (induction pre arbitrary: tree reqs)
  case Nil
  then show ?case by simp
next
  case (Cons m pre)
  from Cons.prems obtain uri body tree1 where u: "GetV3URI e m = Ok uri"
    and f: "Fetch e uri reqs = (Inr body, reqs @ [uri])"
    and x: "UnmarshalV3 rt body tree = Inr tree1"
    and l: "FetchV3_loop rt e pre tree1 (reqs @ [uri]) = (Ok t1, r1)"
    by (rule FetchV3_loop_Ok_Cons)
  show ?case
    using Cons.IH [OF l] u f x by simp
qed

lemma FetchV3_loop_Ok_requests:
  "FetchV3_loop rt e pre tree reqs = (Ok t1, r1) \<Longrightarrow>
     \<exists>uris. r1 = reqs @ uris \<and> map Ok uris = map (GetV3URI e) pre"
proof (induction pre arbitrary: tree reqs)
  case Nil
  then show ?case by simp
next
  case (Cons m pre)
  from Cons.prems obtain uri body tree1 where u: "GetV3URI e m = Ok uri"
    and l: "FetchV3_loop rt e pre tree1 (reqs @ [uri]) = (Ok t1, r1)"
    by (rule FetchV3_loop_Ok_Cons)
  from Cons.IH [OF l] obtain uris where "r1 = (reqs @ [uri]) @ uris"
    and "map Ok uris = map (GetV3URI e) pre"
    by blast
  then have "r1 = reqs @ (uri # uris) \<and> map Ok (uri # uris) = map (GetV3URI e) (m # pre)"
    using u by simp
  then show ?case by blast
qed

text \<open>
  C8. When the groups before \<open>g\<close> are fetched and unmarshalled and the fetch of \<open>g\<close> or
  the unmarshalling of its body fails, \<open>FetchV3\<close> returns that error; the requests it
  made are those of the groups up to \<open>g\<close>, in order, and none of a later group; and
  \<open>Collect\<close> sends \<open>up = 0\<close> and nothing else.
\<close>

theorem FetchV3_stops_at_first_failure:
  assumes "metrics e = pre @ g # post"
    and "FetchV3_loop rt e pre zeroBindRootV3 reqs = (Ok tree, reqs1)"
    and "GetV3URI e g = Ok uri"
    and "Fetch e uri reqs1 = (Inl err, reqs2)
         \<or> (\<exists>body. Fetch e uri reqs1 = (Inr body, reqs2) \<and> UnmarshalV3 rt body tree = Inl err)"
  shows "FetchV3 rt e reqs = (Err err, reqs2)
    \<and> (\<exists>uris. reqs2 = reqs @ uris \<and> map Ok uris = map (GetV3URI e) (pre @ [g]))
    \<and> (GetVersion e reqs0 = (Ok ''v3'', e, reqs) \<longrightarrow>
          Collect rt e reqs0 = ((sendUp (Finite 0), Returned), e, reqs2))"
proof -
  have g: "FetchV3_loop rt e (g # post) tree reqs1 = (Err err, reqs2)"
    using assms(3,4) by auto
  have l: "FetchV3_loop rt e (metrics e) zeroBindRootV3 reqs = (Err err, reqs2)"
    using FetchV3_loop_append [OF assms(2), of "g # post"] g assms(1) by simp
  have f: "FetchV3 rt e reqs = (Err err, reqs2)"
    by (simp add: FetchV3_def l)
  obtain uris where u: "reqs1 = reqs @ uris" "map Ok uris = map (GetV3URI e) pre"
    using FetchV3_loop_Ok_requests [OF assms(2)] by blast
  have "reqs2 = reqs1 @ [uri]"
    using assms(4) Fetch_requests [of e uri reqs1] by auto
  then have "reqs2 = reqs @ (uris @ [uri]) \<and> map Ok (uris @ [uri]) = map (GetV3URI e) (pre @ [g])"
    using u assms(3) by simp
  then have r: "\<exists>uris. reqs2 = reqs @ uris \<and> map Ok uris = map (GetV3URI e) (pre @ [g])"
    by blast
  have c: "Collect rt e reqs0 = ((sendUp (Finite 0), Returned), e, reqs2)"
    if "GetVersion e reqs0 = (Ok ''v3'', e, reqs)"
    by (simp add: Collect_def that f)
  show ?thesis
    using f r c by blast
qed

theorem FetchV3_stops_at_first_failure_witness:
  "FetchV3 sampleRuntime (NewExporter ''http://h:1'' [''mem'', ''server'', ''net''] (emptyFrom 2)) 
     [''http://h:1/xml/v3/status'']
    = (Err (UnmarshalError ''EOF''),
       [''http://h:1/xml/v3/status'', ''http://h:1/xml/v3/mem'', ''http://h:1/xml/v3/server''])
   \<and> Collect sampleRuntime (NewExporter ''http://h:1'' [''mem'', ''server'', ''net''] (emptyFrom 2)) []
    = ((sendUp (Finite 0), Returned),
       NewExporter ''http://h:1'' [''mem'', ''server'', ''net''] (emptyFrom 2),
       [''http://h:1/xml/v3/status'', ''http://h:1/xml/v3/mem'', ''http://h:1/xml/v3/server''])"
proof -
  let ?e = "NewExporter ''http://h:1'' [''mem'', ''server'', ''net''] (emptyFrom 2)"
  let ?r0 = "[''http://h:1/xml/v3/status'']"
  let ?r1 = "[''http://h:1/xml/v3/status'', ''http://h:1/xml/v3/mem'']"
  let ?r2 = "[''http://h:1/xml/v3/status'', ''http://h:1/xml/v3/mem'', ''http://h:1/xml/v3/server'']"
  have m: "metrics ?e = [''mem''] @ ''server'' # [''net'']"
    by (simp add: NewExporter_def)
  have l: "FetchV3_loop sampleRuntime ?e [''mem''] zeroBindRootV3 ?r0 = (Ok zeroBindRootV3, ?r1)"
    by (simp add: NewExporter_def GetV3URI_def Fetch_def Get_def emptyFrom_def sampleRuntime_def)
  have u: "GetV3URI ?e ''server'' = Ok ''http://h:1/xml/v3/server''"
    by (simp add: NewExporter_def GetV3URI_def)
  have f: "Fetch ?e ''http://h:1/xml/v3/server'' ?r1 = (Inl (UnmarshalError ''EOF''), ?r2)
      \<or> (\<exists>body. Fetch ?e ''http://h:1/xml/v3/server'' ?r1 = (Inr body, ?r2)
            \<and> UnmarshalV3 sampleRuntime body zeroBindRootV3 = Inl (UnmarshalError ''EOF''))"
    by (simp add: NewExporter_def Fetch_def Get_def emptyFrom_def sampleRuntime_def)
  have v: "GetVersion ?e [] = (Ok ''v3'', ?e, ?r0)"
    by (simp add: GetVersion_def NewExporter_def GetV3URI_def Get_def emptyFrom_def)
  show ?thesis
    using FetchV3_stops_at_first_failure [OF m l u f, of "[]"] v by simp
qed

end
